theory Spec2Isabelle
  imports Main "HOL-Library.AList"
begin

section \<open>The crawl engine of pyproxy-async (src/app/ip\_get.py)\<close>

text \<open>
  The engine \<^verbatim>\<open>IPGet\<close> walks the configured source sites, fetches every page through
  a bounded retry wrapper, hands the response to the source's parser and pushes the
  parsed addresses into a Redis sorted set, forwarding the new ones to the checker.

  The embedding is shallow. Every coroutine of the class becomes a function from the
  world before the call to an outcome and the world after it. An outcome is a value
  of \<open>exn + 'a\<close>: \<open>Inl e\<close> is the Python exception \<open>e\<close> leaving the call, \<open>Inr v\<close> is
  the value returned. The world is returned in both cases, since effects that happened
  before a \<^verbatim>\<open>raise\<close> stay.
\<close>

subsection \<open>Exceptions\<close>

text \<open>
  The instances of \<^verbatim>\<open>Exception\<close> the module can meet. \<^verbatim>\<open>lib.exceptions\<close> supplies
  the three named classes; \<open>RetryException\<close> carries its \<^verbatim>\<open>__cause__\<close>, set by
  \<^verbatim>\<open>raise RetryException() from e\<close>. \<open>PyException\<close> stands for every other
  instance of \<^verbatim>\<open>Exception\<close> (a timeout, a connection error, a \<^verbatim>\<open>TypeError\<close>),
  tagged with its name. Signals below \<^verbatim>\<open>BaseException\<close> only, which no handler of
  this module names, are not modelled.
\<close>

datatype exn =
    EmptyResponseException
  | RetryException "exn option"
  | MaxRetryException
  | PyException string

subsection \<open>Data\<close>

text \<open>\<^verbatim>\<open>lib.structs.SiteData\<close>, with the fields this module reads.\<close>

record site_data =
  key :: string
  enabled :: bool
  pages :: "string list"
  use_proxy :: bool
  page_interval :: int

text \<open>
  \<^verbatim>\<open>class SiteResponse\<close>: the body text (the field \<^verbatim>\<open>text\<close>, \<open>text_of\<close> here) and the
  URL it came from. The views \<^verbatim>\<open>json\<close> and \<^verbatim>\<open>xpath\<close> are functions of the text that only
  parsers call.
\<close>

record site_response =
  text_of :: string
  url :: string

text \<open>
  An element of a parser's result. \<^verbatim>\<open>isinstance(item, SiteResponseData)\<close> is the
  constructor test; the string is what \<^verbatim>\<open>item.to_str()\<close> returns.
\<close>

datatype parsed_item = SiteResponseData string | NotSiteResponseData

type_synonym parser = "site_response \<Rightarrow> exn + parsed_item list"

text \<open>The argument of \<^verbatim>\<open>push_to_pool\<close>: a list, or one value that is not a list.\<close>

datatype ips_arg = Single string | Many "string list"

text \<open>The messages handed to \<^verbatim>\<open>Logger\<close>, one constructor per format string.\<close>

datatype log_entry =
    CrawlTaskLoop
  | SendIps nat
  | MaxRetrySkip exn
  | GetPageError string exn
  | ParseError exn
  | GetNewIp nat
  | ShowUrl string
  | ShowIp string

text \<open>
  What the engine does to the outside, in the order it does it: a log line, an
  \<^verbatim>\<open>asyncio.sleep\<close>, an HTTP GET (page and proxy), a \<^verbatim>\<open>zadd\<close> that reached the pool,
  a batch that reached \<^verbatim>\<open>IPChecker.push_to_pool\<close>.
\<close>

datatype event =
    Log log_entry
  | Sleep int
  | Get string "string option"
  | Zadd string int
  | Forward "string list"

text \<open>
  The constants of \<^verbatim>\<open>Config\<close> (\<^verbatim>\<open>app.main\<close>), the attempt count the \<^verbatim>\<open>retry\<close>
  decorator is built with, and the two collaborators whose answers are data: the body
  a page serves and the proxy \<^verbatim>\<open>IPFactory.get_random_ip\<close> hands out (already
  rendered by \<^verbatim>\<open>to_http\<close>).
\<close>

record env =
  DEFAULT_SCORE :: int
  DEFAULT_CRAWL_SITES_INTERVAL :: int
  APP_ENV_TEST :: bool
  retry_num :: nat
  page_text :: "string \<Rightarrow> string"
  random_ip :: "bool \<Rightarrow> string option"

text \<open>
  The mutable state: the shared \<^verbatim>\<open>IPGet\<close> instance (\<open>configs\<close> is a Python dict, kept
  as an association list in insertion order; \<open>parsers\<close>; \<open>test_model\<close>), the sorted set
  stored under \<^verbatim>\<open>Config.REDIS_KEY_IP_POOL\<close> (member to score), the trace of events, and
  the script of the collaborators' failures: the n-th call to a collaborator that can
  fail takes the n-th entry, \<open>Some e\<close> makes it raise \<open>e\<close>, \<open>None\<close> or an exhausted
  script lets it succeed.
\<close>

record world =
  configs :: "(string \<times> site_data) list"
  parsers :: "string \<rightharpoonup> parser"
  test_model :: bool
  pool :: "string \<rightharpoonup> int"
  events :: "event list"
  faults :: "exn option list"

subsection \<open>Collaborators\<close>

definition emit :: "event \<Rightarrow> world \<Rightarrow> world" where
  "emit ev w = w\<lparr>events := events w @ [ev]\<rparr>"

definition ext_call :: "world \<Rightarrow> exn option \<times> world" where
  "ext_call w = (case faults w of [] \<Rightarrow> (None, w) | f # fs \<Rightarrow> (f, w\<lparr>faults := fs\<rparr>))"

text \<open>\<^verbatim>\<open>redis.zscore(Config.REDIS_KEY_IP_POOL, ip)\<close>: the score, or \<open>None\<close>.\<close>

definition zscore :: "string \<Rightarrow> world \<Rightarrow> (exn + int option) \<times> world" where
  "zscore ip w =
     (case ext_call w of
        (Some e, w1) \<Rightarrow> (Inl e, w1)
      | (None, w1) \<Rightarrow> (Inr (pool w1 ip), w1))"

text \<open>\<^verbatim>\<open>redis.zadd(Config.REDIS_KEY_IP_POOL, score, ip)\<close>: sets the member's score.\<close>

definition zadd :: "int \<Rightarrow> string \<Rightarrow> world \<Rightarrow> (exn + unit) \<times> world" where
  "zadd score ip w =
     (case ext_call w of
        (Some e, w1) \<Rightarrow> (Inl e, w1)
      | (None, w1) \<Rightarrow> (Inr (), emit (Zadd ip score) (w1\<lparr>pool := (pool w1)(ip \<mapsto> score)\<rparr>)))"

text \<open>\<^verbatim>\<open>IPChecker.push_to_pool(needs_ip)\<close>: the hand-over to the validation stage.\<close>

definition checker_push :: "string list \<Rightarrow> world \<Rightarrow> (exn + unit) \<times> world" where
  "checker_push ips w =
     (case ext_call w of
        (Some e, w1) \<Rightarrow> (Inl e, w1)
      | (None, w1) \<Rightarrow> (Inr (), emit (Forward ips) w1))"

subsection \<open>\<^verbatim>\<open>IPGet.push_to_pool\<close>\<close>

text \<open>Lines 61--62: a value that is not a list becomes a one-element list.\<close>

fun as_list :: "ips_arg \<Rightarrow> string list" where
  "as_list (Single ip) = [ip]"
| "as_list (Many ips) = ips"

text \<open>Lines 65--70: the loop over \<open>ips\<close>, with \<open>needs_ip\<close> as accumulator.\<close>

fun push_loop :: "env \<Rightarrow> string list \<Rightarrow> string list \<Rightarrow> world \<Rightarrow> (exn + string list) \<times> world" where
  "push_loop cfg [] needs_ip w = (Inr needs_ip, w)"
| "push_loop cfg (ip # ips) needs_ip w =
     (case zscore ip w of
        (Inl e, w1) \<Rightarrow> (Inl e, w1)
      | (Inr (Some s), w1) \<Rightarrow> push_loop cfg ips needs_ip w1
      | (Inr None, w1) \<Rightarrow>
          (case zadd (DEFAULT_SCORE cfg) ip w1 of
             (Inl e, w2) \<Rightarrow> (Inl e, w2)
           | (Inr u, w2) \<Rightarrow> push_loop cfg ips (needs_ip @ [ip]) w2))"

text \<open>
  Lines 59--74. The first collaborator call is \<^verbatim>\<open>Redis.share()\<close>, the connection
  the \<^verbatim>\<open>with\<close> block holds. The value returned is \<^verbatim>\<open>len(ips)\<close>.
\<close>

definition push_to_pool :: "env \<Rightarrow> ips_arg \<Rightarrow> world \<Rightarrow> (exn + nat) \<times> world" where
  "push_to_pool cfg arg w =
     (let ips = as_list arg in
      case ext_call w of
        (Some e, w0) \<Rightarrow> (Inl e, w0)
      | (None, w0) \<Rightarrow>
          (case push_loop cfg ips [] w0 of
             (Inl e, w1) \<Rightarrow> (Inl e, w1)
           | (Inr needs_ip, w1) \<Rightarrow>
               (case (if needs_ip \<noteq> [] then checker_push needs_ip w1 else (Inr (), w1)) of
                  (Inl e, w2) \<Rightarrow> (Inl e, w2)
                | (Inr u, w2) \<Rightarrow>
                    (Inr (length ips), emit (Log (SendIps (length needs_ip))) w2))))"

subsection \<open>Parsing: \<^verbatim>\<open>save_parse_result\<close>, \<^verbatim>\<open>show_result\<close>, \<^verbatim>\<open>parse_site\<close>\<close>

text \<open>Lines 133--137: the strings of the items that are \<^verbatim>\<open>SiteResponseData\<close>.\<close>

fun collect_ips :: "parsed_item list \<Rightarrow> string list" where
  "collect_ips [] = []"
| "collect_ips (SiteResponseData s # items) = s # collect_ips items"
| "collect_ips (NotSiteResponseData # items) = collect_ips items"

text \<open>Lines 132--140. The count \<^verbatim>\<open>push_to_pool\<close> returns is dropped.\<close>

definition save_parse_result :: "env \<Rightarrow> parsed_item list \<Rightarrow> world \<Rightarrow> (exn + unit) \<times> world" where
  "save_parse_result cfg result w =
     (let ips = collect_ips result in
      if ips \<noteq> [] then
        (case push_to_pool cfg (Many ips) (emit (Log (GetNewIp (length ips))) w) of
           (Inl e, w1) \<Rightarrow> (Inl e, w1)
         | (Inr n, w1) \<Rightarrow> (Inr (), w1))
      else (Inr (), w))"

text \<open>Lines 142--147: test mode only logs the URL and the addresses.\<close>

definition show_result :: "site_response \<Rightarrow> parsed_item list \<Rightarrow> world \<Rightarrow> world" where
  "show_result resp result w =
     w\<lparr>events := events w @ Log (ShowUrl (url resp)) # map (\<lambda>s. Log (ShowIp s)) (collect_ips result)\<rparr>"

text \<open>
  Lines 119--130. \<open>parse_result\<close> is the body of the \<^verbatim>\<open>try\<close> (lines 124--128),
  \<open>parse_site\<close> adds the lookup of the parser and the handler of line 129.
\<close>

definition parse_result :: "env \<Rightarrow> parser \<Rightarrow> site_response \<Rightarrow> world \<Rightarrow> (exn + unit) \<times> world" where
  "parse_result cfg parser resp w =
     (case parser resp of
        Inl e \<Rightarrow> (Inl e, w)
      | Inr result \<Rightarrow>
          if \<not> test_model w then save_parse_result cfg result w
          else (Inr (), show_result resp result w))"

definition parse_site :: "env \<Rightarrow> site_data \<Rightarrow> site_response \<Rightarrow> world \<Rightarrow> (exn + unit) \<times> world" where
  "parse_site cfg site resp w =
     (case parsers w (key site) of
        None \<Rightarrow> (Inr (), w)
      | Some parser \<Rightarrow>
          (case parse_result cfg parser resp w of
             (Inl e, w1) \<Rightarrow> (Inr (), emit (Log (ParseError e)) w1)
           | (Inr u, w1) \<Rightarrow> (Inr (), w1)))"

subsection \<open>One page: \<^verbatim>\<open>crawl_single_page\<close>\<close>

text \<open>
  Lines 96--100, before the \<^verbatim>\<open>try\<close>: the proxy, asked from \<^verbatim>\<open>IPFactory\<close> when the
  site wants one. \<^verbatim>\<open>page.find('https') == 0\<close> holds when the URL starts with https.
\<close>

definition select_proxy :: "env \<Rightarrow> site_data \<Rightarrow> string \<Rightarrow> world \<Rightarrow> (exn + string option) \<times> world" where
  "select_proxy cfg site page w =
     (if use_proxy site then
        (case ext_call w of
           (Some e, w1) \<Rightarrow> (Inl e, w1)
         | (None, w1) \<Rightarrow> (Inr (random_ip cfg (take 5 page = ''https'')), w1))
      else (Inr None, w))"

text \<open>
  Lines 102--106, inside the \<^verbatim>\<open>try\<close>: the GET, the read of the body, the test for
  an empty body. The GET is recorded whether or not it fails.
\<close>

definition fetch_page :: "env \<Rightarrow> string \<Rightarrow> string option \<Rightarrow> world \<Rightarrow> (exn + site_response) \<times> world" where
  "fetch_page cfg page proxy w =
     (case ext_call (emit (Get page proxy) w) of
        (Some e, w1) \<Rightarrow> (Inl e, w1)
      | (None, w1) \<Rightarrow>
          (case ext_call w1 of
             (Some e, w2) \<Rightarrow> (Inl e, w2)
           | (None, w2) \<Rightarrow>
               if page_text cfg page = [] then (Inl EmptyResponseException, w2)
               else (Inr \<lparr>text_of = page_text cfg page, url = page\<rparr>, w2)))"

text \<open>Lines 108--110: the handler of the \<^verbatim>\<open>try\<close>.\<close>

definition retry_from :: "string \<Rightarrow> exn \<Rightarrow> world \<Rightarrow> (exn + unit) \<times> world" where
  "retry_from page e w = (Inl (RetryException (Some e)), emit (Log (GetPageError page e)) w)"

text \<open>Lines 95--110, the function under the decorator.\<close>

definition crawl_single_page_body :: "env \<Rightarrow> string \<Rightarrow> site_data \<Rightarrow> world \<Rightarrow> (exn + unit) \<times> world" where
  "crawl_single_page_body cfg page site w =
     (case select_proxy cfg site page w of
        (Inl e, w1) \<Rightarrow> (Inl e, w1)
      | (Inr proxy, w1) \<Rightarrow>
          (case fetch_page cfg page proxy w1 of
             (Inl e, w2) \<Rightarrow> retry_from page e w2
           | (Inr site_resp, w2) \<Rightarrow>
               (case parse_site cfg site site_resp w2 of
                  (Inl e, w3) \<Rightarrow> retry_from page e w3
                | (Inr u, w3) \<Rightarrow> (Inr (), w3))))"

text \<open>
  Modelled from the spec: the decorator \<^verbatim>\<open>retry\<close> of \<^verbatim>\<open>lib.func\<close>, which is not among
  the sources. The spec (4.3): invoke the wrapped operation; if it raises a retryable
  failure signal, re-invoke it up to a fixed maximum attempt count, the first attempt
  included; if the budget is exhausted, raise the retry-exhausted signal; any
  non-retryable failure propagates immediately. The retryable signal is
  \<^verbatim>\<open>RetryException\<close>, the retry-exhausted one \<^verbatim>\<open>MaxRetryException\<close>.
\<close>

fun retryable :: "exn \<Rightarrow> bool" where
  "retryable (RetryException c) = True"
| "retryable e = False"

fun retry :: "nat \<Rightarrow> ('s \<Rightarrow> (exn + 'a) \<times> 's) \<Rightarrow> 's \<Rightarrow> (exn + 'a) \<times> 's" where
  "retry 0 f s = (Inl MaxRetryException, s)"
| "retry (Suc n) f s =
     (case f s of
        (Inr v, s1) \<Rightarrow> (Inr v, s1)
      | (Inl e, s1) \<Rightarrow> if retryable e then retry n f s1 else (Inl e, s1))"

text \<open>Counting the invocations of an operation, next to its own state.\<close>

definition counted :: "('s \<Rightarrow> (exn + 'a) \<times> 's) \<Rightarrow> nat \<times> 's \<Rightarrow> (exn + 'a) \<times> nat \<times> 's" where
  "counted f = (\<lambda>(k, s). case f s of (r, s1) \<Rightarrow> (r, Suc k, s1))"

text \<open>Line 94: \<^verbatim>\<open>crawl_single_page\<close> as its callers see it.\<close>

definition crawl_single_page :: "env \<Rightarrow> string \<Rightarrow> site_data \<Rightarrow> world \<Rightarrow> (exn + unit) \<times> world" where
  "crawl_single_page cfg page site = retry (retry_num cfg) (crawl_single_page_body cfg page site)"

subsection \<open>One source: \<^verbatim>\<open>crawl_site\<close>\<close>

text \<open>Lines 91--92, the \<^verbatim>\<open>finally\<close> clause.\<close>

definition pace :: "site_data \<Rightarrow> world \<Rightarrow> world" where
  "pace site w = (if page_interval site \<noteq> 0 then emit (Sleep (page_interval site)) w else w)"

text \<open>
  Lines 85--92, one turn of the loop: the visit, the handler for
  \<^verbatim>\<open>MaxRetryException\<close> (log, \<^verbatim>\<open>continue\<close>), and the \<^verbatim>\<open>finally\<close> clause, which runs
  on every way out; another exception goes on after it.
\<close>

definition crawl_site_page :: "env \<Rightarrow> site_data \<Rightarrow> string \<Rightarrow> world \<Rightarrow> (exn + unit) \<times> world" where
  "crawl_site_page cfg site page w =
     (case crawl_single_page cfg page site w of
        (Inr u, w1) \<Rightarrow> (Inr (), pace site w1)
      | (Inl e, w1) \<Rightarrow>
          (case e of
             MaxRetryException \<Rightarrow> (Inr (), pace site (emit (Log (MaxRetrySkip e)) w1))
           | _ \<Rightarrow> (Inl e, pace site w1)))"

fun crawl_pages :: "env \<Rightarrow> site_data \<Rightarrow> string list \<Rightarrow> world \<Rightarrow> (exn + unit) \<times> world" where
  "crawl_pages cfg site [] w = (Inr (), w)"
| "crawl_pages cfg site (page # rest) w =
     (case crawl_site_page cfg site page w of
        (Inl e, w1) \<Rightarrow> (Inl e, w1)
      | (Inr u, w1) \<Rightarrow> crawl_pages cfg site rest w1)"

text \<open>
  Line 83: all pages when the limit is 0, else the slice \<^verbatim>\<open>site.pages[0:page_limit]\<close>;
  a negative bound counts from the end.
\<close>

definition limit_pages :: "int \<Rightarrow> string list \<Rightarrow> string list" where
  "limit_pages page_limit ps =
     (if page_limit = 0 then ps
      else if 0 < page_limit then take (nat page_limit) ps
      else take (nat (int (length ps) + page_limit)) ps)"

text \<open>
  Lines 76--92. The session and its headers only parameterise the transport, which is
  \<open>page_text\<close> and the script here.
\<close>

definition crawl_site :: "env \<Rightarrow> site_data \<Rightarrow> int \<Rightarrow> world \<Rightarrow> (exn + unit) \<times> world" where
  "crawl_site cfg site page_limit w = crawl_pages cfg site (limit_pages page_limit (pages site)) w"

subsection \<open>The pass and the polling loop\<close>

text \<open>Lines 52--56: the enabled sites, in the order of the dict.\<close>

fun crawl_sites :: "env \<Rightarrow> (string \<times> site_data) list \<Rightarrow> world \<Rightarrow> (exn + unit) \<times> world" where
  "crawl_sites cfg [] w = (Inr (), w)"
| "crawl_sites cfg ((k, site) # rest) w =
     (if enabled site then
        (case crawl_site cfg site 0 w of
           (Inl e, w1) \<Rightarrow> (Inl e, w1)
         | (Inr u, w1) \<Rightarrow> crawl_sites cfg rest w1)
      else crawl_sites cfg rest w)"

definition start_crawl :: "env \<Rightarrow> world \<Rightarrow> (exn + unit) \<times> world" where
  "start_crawl cfg w = crawl_sites cfg (configs w) w"

text \<open>
  Lines 44--50: \<^verbatim>\<open>while True\<close>, so the loop takes fuel, one unit a pass. \<open>None\<close> is
  a loop still running when the fuel is spent, \<open>Some\<close> a loop that was left: by
  \<^verbatim>\<open>break\<close> in the test environment, or by an exception of the pass.
\<close>

fun crawl_task :: "nat \<Rightarrow> env \<Rightarrow> world \<Rightarrow> (exn + unit) option \<times> world" where
  "crawl_task 0 cfg w = (None, w)"
| "crawl_task (Suc n) cfg w =
     (case start_crawl cfg (emit (Log CrawlTaskLoop) w) of
        (Inl e, w1) \<Rightarrow> (Some (Inl e), w1)
      | (Inr u, w1) \<Rightarrow>
          if APP_ENV_TEST cfg then (Some (Inr ()), w1)
          else crawl_task n cfg (emit (Sleep (DEFAULT_CRAWL_SITES_INTERVAL cfg)) w1))"

text \<open>
  Lines 112--117. A key that is not configured makes \<^verbatim>\<open>site\<close> \<open>None\<close>, and
  \<^verbatim>\<open>crawl_site\<close> fails on \<^verbatim>\<open>site.headers\<close>.
\<close>

definition test_crawl :: "env \<Rightarrow> string \<Rightarrow> int \<Rightarrow> world \<Rightarrow> (exn + unit) \<times> world" where
  "test_crawl cfg k page_limit w =
     (let w1 = w\<lparr>test_model := True\<rparr> in
      case map_of (configs w1) k of
        None \<Rightarrow> (Inl (PyException ''AttributeError''), w1)
      | Some site \<Rightarrow> crawl_site cfg site page_limit w1)"

subsection \<open>Registration: \<^verbatim>\<open>config\<close> and \<^verbatim>\<open>parse\<close>\<close>

text \<open>
  Lines 149--170, the decorators applied to a function whose call gave \<open>res\<close>, and to
  a parser \<open>f\<close>. A dict keeps the place of a key it already has.
\<close>

definition config :: "string \<Rightarrow> site_data \<Rightarrow> world \<Rightarrow> world" where
  "config name res w = w\<lparr>configs := AList.update name (res\<lparr>key := name\<rparr>) (configs w)\<rparr>"

definition parse :: "string \<Rightarrow> parser \<Rightarrow> world \<Rightarrow> world" where
  "parse name f w = w\<lparr>parsers := (parsers w)(name \<mapsto> f)\<rparr>"

subsection \<open>Reading the trace\<close>

fun is_sleep :: "event \<Rightarrow> bool" where
  "is_sleep (Sleep d) = True"
| "is_sleep ev = False"

text \<open>The events that reach the pool or the validation stage.\<close>

fun is_sink :: "event \<Rightarrow> bool" where
  "is_sink (Zadd ip score) = True"
| "is_sink (Forward ips) = True"
| "is_sink ev = False"

definition sleeps_of :: "world \<Rightarrow> event list" where
  "sleeps_of w = filter is_sleep (events w)"

definition sinks_of :: "world \<Rightarrow> event list" where
  "sinks_of w = filter is_sink (events w)"

text \<open>
  The number of turns the loop of \<open>crawl_site\<close> takes over a list of pages: every page
  in turn, up to and including the first one whose turn ends in an exception.
\<close>

fun visits :: "env \<Rightarrow> site_data \<Rightarrow> string list \<Rightarrow> world \<Rightarrow> nat" where
  "visits cfg site [] w = 0"
| "visits cfg site (page # rest) w =
     (case crawl_site_page cfg site page w of
        (Inl e, w1) \<Rightarrow> 1
      | (Inr u, w1) \<Rightarrow> Suc (visits cfg site rest w1))"

subsection \<open>A configuration to run\<close>

text \<open>
  One source with two pages and a pacing of two seconds. Page \<open>p1\<close> serves an address,
  page \<open>p2\<close> an empty body. The parser yields the body as one address, an item that is
  no \<^verbatim>\<open>SiteResponseData\<close>, and a second address.
\<close>

definition demo_cfg :: env where
  "demo_cfg = \<lparr>DEFAULT_SCORE = 10, DEFAULT_CRAWL_SITES_INTERVAL = 60, APP_ENV_TEST = False,
     retry_num = 3, page_text = (\<lambda>page. if page = ''p1'' then ''1.2.3.4:80'' else []),
     random_ip = (\<lambda>secure. None)\<rparr>"

definition demo_site :: site_data where
  "demo_site = \<lparr>key = ''S1'', enabled = True, pages = [''p1'', ''p2''], use_proxy = False,
     page_interval = 2\<rparr>"

definition demo_parser :: parser where
  "demo_parser resp = Inr [SiteResponseData (text_of resp), NotSiteResponseData, SiteResponseData ''5.6.7.8:80'']"

definition demo_world :: world where
  "demo_world = \<lparr>configs = [(''S1'', demo_site)], parsers = [''S1'' \<mapsto> demo_parser],
     test_model = False, pool = Map.empty, events = [], faults = []\<rparr>"

section \<open>Properties\<close>

subsection \<open>Basic facts about the world\<close>

lemma emit_simps [simp]:
  "configs (emit ev w) = configs w" "parsers (emit ev w) = parsers w"
  "test_model (emit ev w) = test_model w" "pool (emit ev w) = pool w"
  "events (emit ev w) = events w @ [ev]" "faults (emit ev w) = faults w"
  by (simp_all add: emit_def)

lemma sleeps_of_emit [simp]:
  "sleeps_of (emit ev w) = sleeps_of w @ (if is_sleep ev then [ev] else [])"
  by (simp add: sleeps_of_def)

lemma sinks_of_emit [simp]:
  "sinks_of (emit ev w) = sinks_of w @ (if is_sink ev then [ev] else [])"
  by (simp add: sinks_of_def)

lemma trace_update_simps [simp]:
  "sleeps_of (w\<lparr>faults := fs\<rparr>) = sleeps_of w" "sleeps_of (w\<lparr>pool := p\<rparr>) = sleeps_of w"
  "sinks_of (w\<lparr>faults := fs\<rparr>) = sinks_of w" "sinks_of (w\<lparr>pool := p\<rparr>) = sinks_of w"
  "sleeps_of (w\<lparr>test_model := b\<rparr>) = sleeps_of w" "sinks_of (w\<lparr>test_model := b\<rparr>) = sinks_of w"
  by (simp_all add: sleeps_of_def sinks_of_def)

lemma ext_call_eq:
  "ext_call w = (case faults w of [] \<Rightarrow> None | f # fs \<Rightarrow> f, w\<lparr>faults := tl (faults w)\<rparr>)"
  by (cases "faults w") (simp_all add: ext_call_def)

lemma ext_call_snd: "ext_call w = (r, w1) \<Longrightarrow> w1 = w\<lparr>faults := tl (faults w)\<rparr>"
  by (simp add: ext_call_eq)

lemma zscore_run:
  "zscore ip w = (r, w1) \<Longrightarrow>
   w1 = w\<lparr>faults := tl (faults w)\<rparr> \<and> (\<forall>sc. r = Inr sc \<longrightarrow> sc = pool w ip)"
  by (auto simp: zscore_def ext_call_eq split: option.splits list.splits)

lemma zadd_run:
  "zadd score ip w = (r, w1) \<Longrightarrow>
   (case r of
      Inl e \<Rightarrow> w1 = w\<lparr>faults := tl (faults w)\<rparr>
    | Inr u \<Rightarrow> w1 = emit (Zadd ip score) (w\<lparr>faults := tl (faults w), pool := (pool w)(ip \<mapsto> score)\<rparr>))"
  by (auto simp: zadd_def ext_call_eq split: option.splits list.splits)

lemma checker_push_run:
  "checker_push ips w = (r, w1) \<Longrightarrow>
   (case r of
      Inl e \<Rightarrow> w1 = w\<lparr>faults := tl (faults w)\<rparr>
    | Inr u \<Rightarrow> w1 = emit (Forward ips) (w\<lparr>faults := tl (faults w)\<rparr>))"
  by (auto simp: checker_push_def ext_call_eq split: option.splits list.splits)

text \<open>What one run of the loop does, whether it ends or raises.\<close>

lemma push_loop_run:
  "push_loop cfg ips acc w = (r, w') \<Longrightarrow>
   \<exists>new. distinct new \<and> set new \<subseteq> set ips - dom (pool w)
     \<and> pool w' = (\<lambda>ip. if ip \<in> set new then Some (DEFAULT_SCORE cfg) else pool w ip)
     \<and> events w' = events w @ map (\<lambda>ip. Zadd ip (DEFAULT_SCORE cfg)) new
     \<and> configs w' = configs w \<and> parsers w' = parsers w \<and> test_model w' = test_model w
     \<and> (\<forall>needs. r = Inr needs \<longrightarrow> needs = acc @ new \<and> set new = set ips - dom (pool w))"
proof (induction ips arbitrary: acc w)
  case Nil
  then show ?case by auto
next
  case (Cons ip ips)
  obtain rz w1 where z: "zscore ip w = (rz, w1)" by (cases "zscore ip w")
  from zscore_run[OF z] have w1: "w1 = w\<lparr>faults := tl (faults w)\<rparr>"
    and rz: "\<And>sc. rz = Inr sc \<Longrightarrow> sc = pool w ip" by simp_all
  show ?case
  proof (cases rz)
    case (Inl e)
    with Cons.prems z w1 have "r = Inl e" "w' = w\<lparr>faults := tl (faults w)\<rparr>" by simp_all
    then show ?thesis by (intro exI[of _ "[]"]) simp
  next
    case (Inr sc)
    show ?thesis
    proof (cases sc)
      case (Some s)
      with Cons.prems z Inr have run: "push_loop cfg ips acc w1 = (r, w')" by simp
      have f1: "pool w1 = pool w" "events w1 = events w" "configs w1 = configs w"
        "parsers w1 = parsers w" "test_model w1 = test_model w"
        using w1 by simp_all
      from Cons.IH[OF run] obtain new where
        n: "distinct new" "set new \<subseteq> set ips - dom (pool w1)"
        "pool w' = (\<lambda>a. if a \<in> set new then Some (DEFAULT_SCORE cfg) else pool w1 a)"
        "events w' = events w1 @ map (\<lambda>a. Zadd a (DEFAULT_SCORE cfg)) new"
        "configs w' = configs w1" "parsers w' = parsers w1" "test_model w' = test_model w1"
        "\<And>needs. r = Inr needs \<Longrightarrow> needs = acc @ new \<and> set new = set ips - dom (pool w1)"
        by blast
      note n = n[unfolded f1]
      have old: "ip \<in> dom (pool w)" using Some rz[OF Inr] by (simp add: domIff)
      have "set new \<subseteq> set (ip # ips) - dom (pool w)" using n(2) by auto
      moreover have "\<forall>needs. r = Inr needs \<longrightarrow>
          needs = acc @ new \<and> set new = set (ip # ips) - dom (pool w)"
        using n(8) old by auto
      ultimately show ?thesis using n(1,3,4,5,6,7) by (intro exI[of _ new] conjI)
    next
      case None
      have fresh: "ip \<notin> dom (pool w)" using None rz[OF Inr] by (simp add: domIff)
      obtain ra w2 where a: "zadd (DEFAULT_SCORE cfg) ip w1 = (ra, w2)"
        by (cases "zadd (DEFAULT_SCORE cfg) ip w1")
      show ?thesis
      proof (cases ra)
        case (Inl e)
        with Cons.prems z Inr None a zadd_run[OF a] w1
        have "r = Inl e" "w' = w\<lparr>faults := tl (tl (faults w))\<rparr>" by simp_all
        then show ?thesis by (intro exI[of _ "[]"]) simp
      next
        case Inr2: (Inr u)
        with Cons.prems z Inr None a
        have run: "push_loop cfg ips (acc @ [ip]) w2 = (r, w')" by simp
        from zadd_run[OF a] Inr2 w1 have
          p2: "pool w2 = (pool w)(ip \<mapsto> DEFAULT_SCORE cfg)" and
          e2: "events w2 = events w @ [Zadd ip (DEFAULT_SCORE cfg)]" and
          f2: "configs w2 = configs w" "parsers w2 = parsers w" "test_model w2 = test_model w"
          by simp_all
        from Cons.IH[OF run] obtain new where
          n: "distinct new" "set new \<subseteq> set ips - dom (pool w2)"
          "pool w' = (\<lambda>a. if a \<in> set new then Some (DEFAULT_SCORE cfg) else pool w2 a)"
          "events w' = events w2 @ map (\<lambda>a. Zadd a (DEFAULT_SCORE cfg)) new"
          "configs w' = configs w2" "parsers w' = parsers w2" "test_model w' = test_model w2"
          "\<And>needs. r = Inr needs \<Longrightarrow> needs = (acc @ [ip]) @ new \<and> set new = set ips - dom (pool w2)"
          by blast
        have notin: "ip \<notin> set new" using n(2) p2 by auto
        have "distinct (ip # new)" using n(1) notin by simp
        moreover have "set (ip # new) \<subseteq> set (ip # ips) - dom (pool w)"
          using n(2) p2 fresh by auto
        moreover have "pool w' = (\<lambda>a. if a \<in> set (ip # new) then Some (DEFAULT_SCORE cfg) else pool w a)"
          using n(3) p2 by (auto simp: fun_eq_iff)
        moreover have "events w' = events w @ map (\<lambda>a. Zadd a (DEFAULT_SCORE cfg)) (ip # new)"
          using n(4) e2 by simp
        moreover have "\<forall>needs. r = Inr needs \<longrightarrow>
            needs = acc @ ip # new \<and> set (ip # new) = set (ip # ips) - dom (pool w)"
          using n(8) p2 fresh by auto
        moreover have "configs w' = configs w" "parsers w' = parsers w" "test_model w' = test_model w"
          using n(5,6,7) f2 by simp_all
        ultimately show ?thesis by (intro exI[of _ "ip # new"] conjI)
      qed
    qed
  qed
qed


lemma filter_sleep_Zadd [simp]: "filter is_sleep (map (\<lambda>ip. Zadd ip d) xs) = []"
  by (induction xs) simp_all

lemma filter_sink_Zadd [simp]: "filter is_sink (map (\<lambda>ip. Zadd ip d) xs) = map (\<lambda>ip. Zadd ip d) xs"
  by (induction xs) simp_all

lemma push_to_pool_run:
  assumes "push_to_pool cfg arg w = (r, w')"
  shows "\<exists>needs_ip. distinct needs_ip \<and> set needs_ip \<subseteq> set (as_list arg) - dom (pool w)
     \<and> pool w' = (\<lambda>ip. if ip \<in> set needs_ip then Some (DEFAULT_SCORE cfg) else pool w ip)
     \<and> (case r of
           Inl e \<Rightarrow> events w' = events w @ map (\<lambda>ip. Zadd ip (DEFAULT_SCORE cfg)) needs_ip
         | Inr n \<Rightarrow> n = length (as_list arg)
             \<and> set needs_ip = set (as_list arg) - dom (pool w)
             \<and> events w' = events w @ map (\<lambda>ip. Zadd ip (DEFAULT_SCORE cfg)) needs_ip
                  @ (if needs_ip = [] then [] else [Forward needs_ip])
                  @ [Log (SendIps (length needs_ip))])
     \<and> configs w' = configs w \<and> parsers w' = parsers w \<and> test_model w' = test_model w"
proof -
  obtain r0 w0 where c: "ext_call w = (r0, w0)" by (cases "ext_call w")
  have w0: "w0 = w\<lparr>faults := tl (faults w)\<rparr>" using ext_call_snd[OF c] .
  show ?thesis
  proof (cases r0)
    case (Some e)
    with assms c w0 have "r = Inl e" "w' = w\<lparr>faults := tl (faults w)\<rparr>"
      by (simp_all add: push_to_pool_def)
    then show ?thesis by (intro exI[of _ "[]"]) simp
  next
    case None
    obtain rl w1 where loop: "push_loop cfg (as_list arg) [] w0 = (rl, w1)"
      by (cases "push_loop cfg (as_list arg) [] w0")
    have f0: "pool w0 = pool w" "events w0 = events w" "configs w0 = configs w"
      "parsers w0 = parsers w" "test_model w0 = test_model w"
      using w0 by simp_all
    from push_loop_run[OF loop] obtain new where
      n: "distinct new" "set new \<subseteq> set (as_list arg) - dom (pool w0)"
      "pool w1 = (\<lambda>a. if a \<in> set new then Some (DEFAULT_SCORE cfg) else pool w0 a)"
      "events w1 = events w0 @ map (\<lambda>a. Zadd a (DEFAULT_SCORE cfg)) new"
      "configs w1 = configs w0" "parsers w1 = parsers w0" "test_model w1 = test_model w0"
      "\<And>needs. rl = Inr needs \<Longrightarrow> needs = [] @ new \<and> set new = set (as_list arg) - dom (pool w0)"
      by blast
    note n = n[unfolded f0 append_Nil]
    show ?thesis
    proof (cases rl)
      case (Inl e)
      with assms c None loop have "r = Inl e" "w' = w1"
        by (simp_all add: push_to_pool_def)
      with n show ?thesis by (intro exI[of _ new]) simp
    next
      case (Inr needs)
      with n(8) have needs: "needs = new" and full: "set new = set (as_list arg) - dom (pool w)"
        by simp_all
      obtain rf w2 where
        fw: "(if new \<noteq> [] then checker_push new w1 else (Inr (), w1)) = (rf, w2)"
        by (cases "if new \<noteq> [] then checker_push new w1 else (Inr (), w1)")
      show ?thesis
      proof (cases rf)
        case Inl2: (Inl e)
        with fw have ne: "new \<noteq> []" and cp: "checker_push new w1 = (Inl e, w2)"
          by (auto split: if_splits)
        from assms c None loop Inr needs fw Inl2 have "r = Inl e" "w' = w2"
          by (simp_all add: push_to_pool_def)
        moreover from checker_push_run[OF cp] have "w2 = w1\<lparr>faults := tl (faults w1)\<rparr>" by simp
        ultimately show ?thesis using n by (intro exI[of _ new]) simp
      next
        case Inr2: (Inr u)
        from assms c None loop Inr needs fw Inr2
        have res: "r = Inr (length (as_list arg))" "w' = emit (Log (SendIps (length new))) w2"
          by (simp_all add: push_to_pool_def)
        have w2: "pool w2 = pool w1" "configs w2 = configs w1" "parsers w2 = parsers w1"
          "test_model w2 = test_model w1"
          "events w2 = events w1 @ (if new = [] then [] else [Forward new])"
          using fw Inr2 checker_push_run[of new w1 rf w2] by (auto split: if_splits)
        show ?thesis using res n(1-7) full w2 by (intro exI[of _ new]) simp
      qed
    qed
  qed
qed

lemma push_to_pool_frame:
  assumes "push_to_pool cfg arg w = (r, w')"
  shows "configs w' = configs w \<and> parsers w' = parsers w \<and> test_model w' = test_model w
     \<and> sleeps_of w' = sleeps_of w"
proof -
  from push_to_pool_run[OF assms] obtain new where
    ev: "case r of
           Inl e \<Rightarrow> events w' = events w @ map (\<lambda>ip. Zadd ip (DEFAULT_SCORE cfg)) new
         | Inr n \<Rightarrow> n = length (as_list arg)
             \<and> set new = set (as_list arg) - dom (pool w)
             \<and> events w' = events w @ map (\<lambda>ip. Zadd ip (DEFAULT_SCORE cfg)) new
                  @ (if new = [] then [] else [Forward new])
                  @ [Log (SendIps (length new))]"
    and fr: "configs w' = configs w" "parsers w' = parsers w" "test_model w' = test_model w"
    by blast
  from ev have "sleeps_of w' = sleeps_of w"
    by (cases r) (simp_all add: sleeps_of_def)
  with fr show ?thesis by simp
qed

lemma save_parse_result_frame:
  assumes "save_parse_result cfg result w = (r, w')"
  shows "configs w' = configs w \<and> parsers w' = parsers w \<and> test_model w' = test_model w
     \<and> sleeps_of w' = sleeps_of w"
proof (cases "collect_ips result = []")
  case True
  with assms show ?thesis by (simp add: save_parse_result_def)
next
  case False
  let ?w0 = "emit (Log (GetNewIp (length (collect_ips result)))) w"
  obtain rp wp where p: "push_to_pool cfg (Many (collect_ips result)) ?w0 = (rp, wp)"
    by (cases "push_to_pool cfg (Many (collect_ips result)) ?w0")
  with assms False have "w' = wp"
    by (auto simp: save_parse_result_def Let_def split: sum.splits)
  with push_to_pool_frame[OF p] show ?thesis by simp
qed

lemma show_result_frame [simp]:
  "configs (show_result resp result w) = configs w"
  "parsers (show_result resp result w) = parsers w"
  "test_model (show_result resp result w) = test_model w"
  "pool (show_result resp result w) = pool w"
  "faults (show_result resp result w) = faults w"
  by (simp_all add: show_result_def)

lemma filter_ShowIp [simp]:
  "filter is_sleep (map (\<lambda>s. Log (ShowIp s)) xs) = []"
  "filter is_sink (map (\<lambda>s. Log (ShowIp s)) xs) = []"
  by (induction xs) simp_all

lemma show_result_trace [simp]:
  "sleeps_of (show_result resp result w) = sleeps_of w"
  "sinks_of (show_result resp result w) = sinks_of w"
  by (simp_all add: show_result_def sleeps_of_def sinks_of_def)

lemma parse_result_frame:
  assumes "parse_result cfg parser resp w = (r, w')"
  shows "configs w' = configs w \<and> parsers w' = parsers w \<and> test_model w' = test_model w
     \<and> sleeps_of w' = sleeps_of w"
  using assms save_parse_result_frame[of cfg _ w r w']
  by (auto simp: parse_result_def split: sum.splits if_splits)

lemma parse_result_display:
  assumes "parse_result cfg parser resp w = (r, w')" and "test_model w"
  shows "pool w' = pool w \<and> sinks_of w' = sinks_of w"
  using assms by (auto simp: parse_result_def split: sum.splits)

lemma parse_site_frame:
  assumes "parse_site cfg site resp w = (r, w')"
  shows "configs w' = configs w \<and> parsers w' = parsers w \<and> test_model w' = test_model w
     \<and> sleeps_of w' = sleeps_of w"
  using assms parse_result_frame[of cfg _ resp w]
  by (auto simp: parse_site_def split: option.splits sum.splits prod.splits)

lemma parse_site_display:
  assumes "parse_site cfg site resp w = (r, w')" and "test_model w"
  shows "pool w' = pool w \<and> sinks_of w' = sinks_of w"
  using assms parse_result_display[of cfg _ resp w]
  by (auto simp: parse_site_def split: option.splits sum.splits prod.splits)

lemma parse_site_returns: "fst (parse_site cfg site resp w) = Inr ()"
  by (simp add: parse_site_def split: option.splits sum.splits prod.splits)

subsection \<open>The sink: deduplication and the returned count\<close>

text \<open>
  Claim C1. In every batch that \<open>push_to_pool\<close> processes, an address whose score
  lookup succeeds (it is in the pool already, or an earlier occurrence in the batch put
  it there) is neither inserted again nor forwarded; an address whose lookup fails is
  inserted with the default score and stands exactly once in the one forwarding call of
  the batch, which is made only when there is a new address. \<open>needs_ip\<close> is the list
  of the source: it has no duplicates, its members are the addresses of the batch that
  the pool did not have, the pool changes at these members only, and the trace gains
  one \<open>Zadd\<close> for each of them and then, when the call returns, at most one \<open>Forward\<close>,
  carrying the whole list. A batch cut short by a collaborator's exception has
  inserted a part of the new addresses and forwarded nothing.
\<close>

theorem push_to_pool_dedup:
  assumes "push_to_pool cfg arg w = (r, w')"
  shows "\<exists>needs_ip. distinct needs_ip \<and> set needs_ip \<subseteq> set (as_list arg) - dom (pool w)
     \<and> pool w' = (\<lambda>ip. if ip \<in> set needs_ip then Some (DEFAULT_SCORE cfg) else pool w ip)
     \<and> (case r of
           Inl e \<Rightarrow> events w' = events w @ map (\<lambda>ip. Zadd ip (DEFAULT_SCORE cfg)) needs_ip
         | Inr n \<Rightarrow> set needs_ip = set (as_list arg) - dom (pool w)
             \<and> events w' = events w @ map (\<lambda>ip. Zadd ip (DEFAULT_SCORE cfg)) needs_ip
                  @ (if needs_ip = [] then [] else [Forward needs_ip])
                  @ [Log (SendIps (length needs_ip))])"
proof -
  from push_to_pool_run[OF assms] obtain new where
    n: "distinct new" "set new \<subseteq> set (as_list arg) - dom (pool w)"
      "pool w' = (\<lambda>ip. if ip \<in> set new then Some (DEFAULT_SCORE cfg) else pool w ip)"
      "case r of
           Inl e \<Rightarrow> events w' = events w @ map (\<lambda>ip. Zadd ip (DEFAULT_SCORE cfg)) new
         | Inr n \<Rightarrow> n = length (as_list arg)
             \<and> set new = set (as_list arg) - dom (pool w)
             \<and> events w' = events w @ map (\<lambda>ip. Zadd ip (DEFAULT_SCORE cfg)) new
                  @ (if new = [] then [] else [Forward new])
                  @ [Log (SendIps (length new))]"
    by blast
  from n(4) have "case r of
           Inl e \<Rightarrow> events w' = events w @ map (\<lambda>ip. Zadd ip (DEFAULT_SCORE cfg)) new
         | Inr n \<Rightarrow> set new = set (as_list arg) - dom (pool w)
             \<and> events w' = events w @ map (\<lambda>ip. Zadd ip (DEFAULT_SCORE cfg)) new
                  @ (if new = [] then [] else [Forward new])
                  @ [Log (SendIps (length new))]"
    by (cases r) simp_all
  with n(1-3) show ?thesis by (intro exI[of _ new] conjI)
qed

theorem push_to_pool_dedup_witness:
  "fst (push_to_pool demo_cfg (Many [''a'', ''b'', ''a'']) (demo_world\<lparr>pool := [''b'' \<mapsto> 7]\<rparr>)) = Inr 3
   \<and> (\<exists>needs_ip. distinct needs_ip \<and> set needs_ip = {''a''}
        \<and> events (snd (push_to_pool demo_cfg (Many [''a'', ''b'', ''a'']) (demo_world\<lparr>pool := [''b'' \<mapsto> 7]\<rparr>)))
            = map (\<lambda>ip. Zadd ip 10) needs_ip @ (if needs_ip = [] then [] else [Forward needs_ip])
                @ [Log (SendIps (length needs_ip))])"
proof -
  let ?w = "demo_world\<lparr>pool := [''b'' \<mapsto> 7]\<rparr>"
  let ?run = "push_to_pool demo_cfg (Many [''a'', ''b'', ''a'']) ?w"
  have res: "fst ?run = Inr 3"
    by (simp add: push_to_pool_def ext_call_def zscore_def zadd_def checker_push_def emit_def
        demo_cfg_def demo_world_def)
  then have run: "?run = (Inr 3, snd ?run)"
    by (simp add: prod_eq_iff)
  have dom: "set (as_list (Many [''a'', ''b'', ''a''])) - dom (pool ?w) = {''a''}"
    by (auto simp: demo_world_def)
  have ev: "events ?w = []" "DEFAULT_SCORE demo_cfg = 10"
    by (simp_all add: demo_world_def demo_cfg_def)
  from push_to_pool_dedup[OF run] obtain needs_ip where
    "distinct needs_ip" "set needs_ip = set (as_list (Many [''a'', ''b'', ''a''])) - dom (pool ?w)"
    "events (snd ?run) = events ?w @ map (\<lambda>ip. Zadd ip (DEFAULT_SCORE demo_cfg)) needs_ip
        @ (if needs_ip = [] then [] else [Forward needs_ip]) @ [Log (SendIps (length needs_ip))]"
    unfolding sum.case by blast
  then show ?thesis unfolding dom ev append_Nil using res by blast
qed

text \<open>
  Claim C2, as stated, has \<open>push_to_pool\<close> return the count of the new addresses, the
  count that is logged. The source logs \<^verbatim>\<open>len(needs_ip)\<close> and returns \<^verbatim>\<open>len(ips)\<close>:
  for one address that the pool already has, it logs 0 and returns 1.
\<close>

theorem push_to_pool_returns_new_count_counterexample:
  "fst (push_to_pool demo_cfg (Many [''a'']) (demo_world\<lparr>pool := [''a'' \<mapsto> 7]\<rparr>)) = Inr 1
   \<and> events (snd (push_to_pool demo_cfg (Many [''a'']) (demo_world\<lparr>pool := [''a'' \<mapsto> 7]\<rparr>)))
       = [Log (SendIps 0)]"
  by (simp add: push_to_pool_def ext_call_def zscore_def zadd_def checker_push_def emit_def
      demo_cfg_def demo_world_def)

text \<open>
  Claim C2, amended. For every input, a call of \<open>push_to_pool\<close> that returns gives the
  number of addresses it was handed (the length of the input list, 1 for a value that is
  no list); the count of the new addresses, those the pool did not have, is the one
  it logs last.
\<close>

theorem push_to_pool_returns_length:
  assumes "push_to_pool cfg arg w = (Inr n, w')"
  shows "n = length (as_list arg)
     \<and> last (events w') = Log (SendIps (card (set (as_list arg) - dom (pool w))))"
proof -
  from push_to_pool_run[OF assms] obtain new where
    n: "distinct new" "n = length (as_list arg)" "set new = set (as_list arg) - dom (pool w)"
      "events w' = events w @ map (\<lambda>ip. Zadd ip (DEFAULT_SCORE cfg)) new
                  @ (if new = [] then [] else [Forward new])
                  @ [Log (SendIps (length new))]"
    by auto
  have "length new = card (set (as_list arg) - dom (pool w))"
    using n(1,3) distinct_card[of new] by simp
  with n(2,4) show ?thesis by simp
qed

theorem push_to_pool_returns_length_witness:
  "fst (push_to_pool demo_cfg (Many [''a'', ''b'', ''a'']) (demo_world\<lparr>pool := [''b'' \<mapsto> 7]\<rparr>))
     = Inr (length (as_list (Many [''a'', ''b'', ''a''])))
   \<and> last (events (snd (push_to_pool demo_cfg (Many [''a'', ''b'', ''a'']) (demo_world\<lparr>pool := [''b'' \<mapsto> 7]\<rparr>))))
     = Log (SendIps 1)"
proof -
  let ?w = "demo_world\<lparr>pool := [''b'' \<mapsto> 7]\<rparr>"
  let ?run = "push_to_pool demo_cfg (Many [''a'', ''b'', ''a'']) ?w"
  have res: "fst ?run = Inr 3"
    by (simp add: push_to_pool_def ext_call_def zscore_def zadd_def checker_push_def emit_def
        demo_cfg_def demo_world_def)
  then have run: "?run = (Inr 3, snd ?run)"
    by (simp add: prod_eq_iff)
  have dom: "set (as_list (Many [''a'', ''b'', ''a''])) - dom (pool ?w) = {''a''}"
    by (auto simp: demo_world_def)
  from push_to_pool_returns_length[OF run] res show ?thesis unfolding dom by simp
qed

subsection \<open>One page\<close>

lemma select_proxy_run:
  "select_proxy cfg site page w = (r, w1) \<Longrightarrow>
   (if use_proxy site then w1 = w\<lparr>faults := tl (faults w)\<rparr> else w1 = w \<and> r = Inr None)"
  by (auto simp: select_proxy_def ext_call_eq split: if_splits option.splits list.splits)

lemma select_proxy_frame:
  assumes "select_proxy cfg site page w = (r, w')"
  shows "configs w' = configs w \<and> parsers w' = parsers w \<and> test_model w' = test_model w
     \<and> sleeps_of w' = sleeps_of w \<and> pool w' = pool w \<and> sinks_of w' = sinks_of w"
  using select_proxy_run[OF assms] by (cases "use_proxy site") simp_all

lemma fetch_page_frame:
  assumes "fetch_page cfg page proxy w = (r, w')"
  shows "configs w' = configs w \<and> parsers w' = parsers w \<and> test_model w' = test_model w
     \<and> sleeps_of w' = sleeps_of w \<and> pool w' = pool w \<and> sinks_of w' = sinks_of w"
  using assms
  by (auto simp: fetch_page_def ext_call_eq split: option.splits list.splits if_splits)

lemma retry_from_frame:
  assumes "retry_from page e w = (r, w')"
  shows "configs w' = configs w \<and> parsers w' = parsers w \<and> test_model w' = test_model w
     \<and> sleeps_of w' = sleeps_of w \<and> pool w' = pool w \<and> sinks_of w' = sinks_of w"
  using assms by (auto simp: retry_from_def)

lemma crawl_single_page_body_frame:
  assumes "crawl_single_page_body cfg page site w = (r, w')"
  shows "configs w' = configs w \<and> parsers w' = parsers w \<and> test_model w' = test_model w
     \<and> sleeps_of w' = sleeps_of w"
proof -
  obtain rs w1 where s: "select_proxy cfg site page w = (rs, w1)"
    by (cases "select_proxy cfg site page w")
  note f1 = select_proxy_frame[OF s]
  show ?thesis
  proof (cases rs)
    case (Inl e)
    with assms s f1 show ?thesis by (simp add: crawl_single_page_body_def)
  next
    case (Inr proxy)
    obtain rf w2 where f: "fetch_page cfg page proxy w1 = (rf, w2)"
      by (cases "fetch_page cfg page proxy w1")
    note f2 = fetch_page_frame[OF f]
    show ?thesis
    proof (cases rf)
      case Inl2: (Inl e)
      with assms s Inr f have "retry_from page e w2 = (r, w')"
        by (simp add: crawl_single_page_body_def)
      from retry_from_frame[OF this] f1 f2 show ?thesis by simp
    next
      case Inr2: (Inr resp)
      obtain rp w3 where p: "parse_site cfg site resp w2 = (rp, w3)"
        by (cases "parse_site cfg site resp w2")
      note f3 = parse_site_frame[OF p]
      show ?thesis
      proof (cases rp)
        case Inl3: (Inl e)
        with assms s Inr f Inr2 p have "retry_from page e w3 = (r, w')"
          by (simp add: crawl_single_page_body_def)
        from retry_from_frame[OF this] f1 f2 f3 show ?thesis by simp
      next
        case Inr3: (Inr u)
        with assms s Inr f Inr2 p have "w' = w3"
          by (simp add: crawl_single_page_body_def)
        with f1 f2 f3 show ?thesis by simp
      qed
    qed
  qed
qed

lemma crawl_single_page_body_display:
  assumes "crawl_single_page_body cfg page site w = (r, w')" and t: "test_model w"
  shows "pool w' = pool w \<and> sinks_of w' = sinks_of w"
proof -
  obtain rs w1 where s: "select_proxy cfg site page w = (rs, w1)"
    by (cases "select_proxy cfg site page w")
  note f1 = select_proxy_frame[OF s]
  show ?thesis
  proof (cases rs)
    case (Inl e)
    with assms s f1 show ?thesis by (simp add: crawl_single_page_body_def)
  next
    case (Inr proxy)
    obtain rf w2 where f: "fetch_page cfg page proxy w1 = (rf, w2)"
      by (cases "fetch_page cfg page proxy w1")
    note f2 = fetch_page_frame[OF f]
    show ?thesis
    proof (cases rf)
      case Inl2: (Inl e)
      with assms s Inr f have "retry_from page e w2 = (r, w')"
        by (simp add: crawl_single_page_body_def)
      from retry_from_frame[OF this] f1 f2 show ?thesis by simp
    next
      case Inr2: (Inr resp)
      obtain rp w3 where p: "parse_site cfg site resp w2 = (rp, w3)"
        by (cases "parse_site cfg site resp w2")
      have "test_model w2" using t f1 f2 by simp
      note f3 = parse_site_display[OF p this]
      show ?thesis
      proof (cases rp)
        case Inl3: (Inl e)
        with assms s Inr f Inr2 p have "retry_from page e w3 = (r, w')"
          by (simp add: crawl_single_page_body_def)
        from retry_from_frame[OF this] f1 f2 f3 show ?thesis by simp
      next
        case Inr3: (Inr u)
        with assms s Inr f Inr2 p have "w' = w3"
          by (simp add: crawl_single_page_body_def)
        with f1 f2 f3 show ?thesis by simp
      qed
    qed
  qed
qed

text \<open>What holds across every invocation holds across the retries.\<close>

lemma retry_rel:
  assumes step: "\<And>s r s1. f s = (r, s1) \<Longrightarrow> R s s1"
    and refl: "\<And>s. R s s"
    and trans: "\<And>a b c. R a b \<Longrightarrow> R b c \<Longrightarrow> R a c"
  shows "retry n f s = (r, s') \<Longrightarrow> R s s'"
proof (induction n arbitrary: s)
  case 0
  then show ?case using refl by simp
next
  case (Suc n)
  obtain r1 s1 where f: "f s = (r1, s1)" by (cases "f s")
  show ?case
  proof (cases r1)
    case (Inr v)
    with Suc.prems f have "s' = s1" by simp
    with step[OF f] show ?thesis by simp
  next
    case (Inl e)
    show ?thesis
    proof (cases "retryable e")
      case True
      with Suc.prems f Inl have "retry n f s1 = (r, s')" by simp
      from trans[OF step[OF f] Suc.IH[OF this]] show ?thesis .
    next
      case False
      with Suc.prems f Inl have "s' = s1" by simp
      with step[OF f] show ?thesis by simp
    qed
  qed
qed

lemma crawl_single_page_frame:
  assumes "crawl_single_page cfg page site w = (r, w')"
  shows "configs w' = configs w \<and> parsers w' = parsers w \<and> test_model w' = test_model w
     \<and> sleeps_of w' = sleeps_of w"
  using assms unfolding crawl_single_page_def
  by (rule retry_rel[where R = "\<lambda>w w'. configs w' = configs w \<and> parsers w' = parsers w
        \<and> test_model w' = test_model w \<and> sleeps_of w' = sleeps_of w", rotated -1])
     (simp_all add: crawl_single_page_body_frame)

lemma crawl_single_page_display:
  assumes "crawl_single_page cfg page site w = (r, w')" and t: "test_model w"
  shows "test_model w' \<and> pool w' = pool w \<and> sinks_of w' = sinks_of w"
proof -
  have "test_model w \<longrightarrow> test_model w' \<and> pool w' = pool w \<and> sinks_of w' = sinks_of w"
    using assms(1) unfolding crawl_single_page_def
  proof (rule retry_rel[where R = "\<lambda>w w'. test_model w \<longrightarrow>
        test_model w' \<and> pool w' = pool w \<and> sinks_of w' = sinks_of w", rotated -1])
    fix s r s1
    assume "crawl_single_page_body cfg page site s = (r, s1)"
    from crawl_single_page_body_frame[OF this] crawl_single_page_body_display[OF this]
    show "test_model s \<longrightarrow> test_model s1 \<and> pool s1 = pool s \<and> sinks_of s1 = sinks_of s"
      by simp
  qed simp_all
  with t show ?thesis by simp
qed

subsection \<open>One source, the pass, the polling loop\<close>

lemma pace_simps [simp]:
  "configs (pace site w) = configs w" "parsers (pace site w) = parsers w"
  "test_model (pace site w) = test_model w" "pool (pace site w) = pool w"
  "sinks_of (pace site w) = sinks_of w"
  "sleeps_of (pace site w) =
     sleeps_of w @ (if page_interval site \<noteq> 0 then [Sleep (page_interval site)] else [])"
  by (simp_all add: pace_def)

lemma crawl_site_page_run:
  assumes "crawl_single_page cfg page site w = (r1, w1)"
  shows "crawl_site_page cfg site page w =
     (if r1 = Inl MaxRetryException then (Inr (), pace site (emit (Log (MaxRetrySkip MaxRetryException)) w1))
      else (r1, pace site w1))"
proof (cases r1)
  case (Inr u)
  with assms show ?thesis by (simp add: crawl_site_page_def)
next
  case (Inl e)
  with assms show ?thesis by (cases e) (simp_all add: crawl_site_page_def)
qed

lemma crawl_site_page_frame:
  assumes "crawl_site_page cfg site page w = (r, w')"
  shows "configs w' = configs w \<and> parsers w' = parsers w \<and> test_model w' = test_model w"
proof -
  obtain r1 w1 where c: "crawl_single_page cfg page site w = (r1, w1)"
    by (cases "crawl_single_page cfg page site w")
  from assms crawl_site_page_run[OF c] crawl_single_page_frame[OF c]
  show ?thesis by (auto split: if_splits)
qed

lemma crawl_site_page_display:
  assumes "crawl_site_page cfg site page w = (r, w')" and "test_model w"
  shows "pool w' = pool w \<and> sinks_of w' = sinks_of w"
proof -
  obtain r1 w1 where c: "crawl_single_page cfg page site w = (r1, w1)"
    by (cases "crawl_single_page cfg page site w")
  from assms crawl_site_page_run[OF c] crawl_single_page_display[OF c]
  show ?thesis by (auto split: if_splits)
qed

lemma crawl_pages_frame:
  "crawl_pages cfg site ps w = (r, w') \<Longrightarrow>
   configs w' = configs w \<and> parsers w' = parsers w \<and> test_model w' = test_model w"
proof (induction ps arbitrary: w)
  case Nil
  then show ?case by simp
next
  case (Cons page rest)
  obtain r1 w1 where c: "crawl_site_page cfg site page w = (r1, w1)"
    by (cases "crawl_site_page cfg site page w")
  note f = crawl_site_page_frame[OF c]
  show ?case
  proof (cases r1)
    case (Inl e)
    with Cons.prems c f show ?thesis by simp
  next
    case (Inr u)
    with Cons.prems c have "crawl_pages cfg site rest w1 = (r, w')" by simp
    from Cons.IH[OF this] f show ?thesis by simp
  qed
qed

lemma crawl_pages_display:
  "crawl_pages cfg site ps w = (r, w') \<Longrightarrow> test_model w \<Longrightarrow>
   pool w' = pool w \<and> sinks_of w' = sinks_of w"
proof (induction ps arbitrary: w)
  case Nil
  then show ?case by simp
next
  case (Cons page rest)
  obtain r1 w1 where c: "crawl_site_page cfg site page w = (r1, w1)"
    by (cases "crawl_site_page cfg site page w")
  note f = crawl_site_page_frame[OF c] crawl_site_page_display[OF c Cons.prems(2)]
  show ?case
  proof (cases r1)
    case (Inl e)
    with Cons.prems c f show ?thesis by simp
  next
    case (Inr u)
    with Cons.prems c have run: "crawl_pages cfg site rest w1 = (r, w')" by simp
    have "test_model w1" using f Cons.prems(2) by simp
    from Cons.IH[OF run this] f show ?thesis by simp
  qed
qed

lemma crawl_sites_frame:
  "crawl_sites cfg sites w = (r, w') \<Longrightarrow>
   configs w' = configs w \<and> parsers w' = parsers w \<and> test_model w' = test_model w"
proof (induction cfg sites w rule: crawl_sites.induct)
  case (1 cfg w)
  then show ?case by simp
next
  case (2 cfg k site rest w)
  show ?case
  proof (cases "enabled site")
    case False
    with 2 show ?thesis by simp
  next
    case True
    obtain r1 w1 where c: "crawl_site cfg site 0 w = (r1, w1)"
      by (cases "crawl_site cfg site 0 w")
    note f = crawl_pages_frame[OF c[unfolded crawl_site_def]]
    show ?thesis
    proof (cases r1)
      case (Inl e)
      with 2 True c f show ?thesis by simp
    next
      case (Inr u)
      with "2.prems" True c have "crawl_sites cfg rest w1 = (r, w')" by simp
      from "2.IH"(1)[OF True c[symmetric] Inr this] f show ?thesis by simp
    qed
  qed
qed

lemma crawl_sites_display:
  "crawl_sites cfg sites w = (r, w') \<Longrightarrow> test_model w \<Longrightarrow>
   pool w' = pool w \<and> sinks_of w' = sinks_of w"
proof (induction cfg sites w rule: crawl_sites.induct)
  case (1 cfg w)
  then show ?case by simp
next
  case (2 cfg k site rest w)
  show ?case
  proof (cases "enabled site")
    case False
    with 2 show ?thesis by simp
  next
    case True
    obtain r1 w1 where c: "crawl_site cfg site 0 w = (r1, w1)"
      by (cases "crawl_site cfg site 0 w")
    note f = crawl_pages_frame[OF c[unfolded crawl_site_def]]
      crawl_pages_display[OF c[unfolded crawl_site_def] "2.prems"(2)]
    show ?thesis
    proof (cases r1)
      case (Inl e)
      with 2 True c f show ?thesis by simp
    next
      case (Inr u)
      with "2.prems" True c have run: "crawl_sites cfg rest w1 = (r, w')" by simp
      have "test_model w1" using f "2.prems"(2) by simp
      from "2.IH"(1)[OF True c[symmetric] Inr run this] f show ?thesis by simp
    qed
  qed
qed

lemma crawl_task_display:
  "crawl_task n cfg w = (r, w') \<Longrightarrow> test_model w \<Longrightarrow>
   test_model w' \<and> pool w' = pool w \<and> sinks_of w' = sinks_of w"
proof (induction n arbitrary: w)
  case 0
  then show ?case by simp
next
  case (Suc n)
  let ?w0 = "emit (Log CrawlTaskLoop) w"
  obtain r1 w1 where c: "start_crawl cfg ?w0 = (r1, w1)"
    by (cases "start_crawl cfg ?w0")
  have t0: "test_model ?w0" using Suc.prems(2) by simp
  from crawl_sites_frame[OF c[unfolded start_crawl_def]]
    crawl_sites_display[OF c[unfolded start_crawl_def] t0]
  have f: "test_model w1" "pool w1 = pool w" "sinks_of w1 = sinks_of w"
    using t0 by simp_all
  show ?case
  proof (cases r1)
    case (Inl e)
    with Suc.prems c f show ?thesis by simp
  next
    case (Inr u)
    show ?thesis
    proof (cases "APP_ENV_TEST cfg")
      case True
      with Suc.prems c Inr f show ?thesis by simp
    next
      case False
      let ?w2 = "emit (Sleep (DEFAULT_CRAWL_SITES_INTERVAL cfg)) w1"
      from Suc.prems c Inr False have run: "crawl_task n cfg ?w2 = (r, w')" by simp
      have "test_model ?w2" using f by simp
      from Suc.IH[OF run this] f show ?thesis by simp
    qed
  qed
qed

lemma test_crawl_display:
  assumes "test_crawl cfg k page_limit w = (r, w')"
  shows "test_model w' \<and> pool w' = pool w \<and> sinks_of w' = sinks_of w"
proof (cases "map_of (configs w) k")
  case None
  with assms show ?thesis by (auto simp: test_crawl_def)
next
  case (Some site)
  let ?w1 = "w\<lparr>test_model := True\<rparr>"
  from assms Some have c: "crawl_pages cfg site (limit_pages page_limit (pages site)) ?w1 = (r, w')"
    by (simp add: test_crawl_def crawl_site_def)
  have t: "test_model ?w1" by simp
  from crawl_pages_frame[OF c] crawl_pages_display[OF c t] show ?thesis by simp
qed

subsection \<open>Failures of a page visit\<close>

lemma parse_site_total: "parse_site cfg site resp w = (Inr (), snd (parse_site cfg site resp w))"
  using parse_site_returns[of cfg site resp w] by (simp add: prod_eq_iff)

text \<open>The three ways \<open>fetch_page\<close> fails: the GET, the read of the body, an empty body.\<close>

lemma fetch_page_failures:
  "faults w = Some e # fs \<Longrightarrow> fst (fetch_page cfg page proxy w) = Inl e"
  "faults w = None # Some e # fs \<Longrightarrow> fst (fetch_page cfg page proxy w) = Inl e"
  "faults w = [] \<or> faults w = [None] \<or> faults w = None # None # fs \<Longrightarrow> page_text cfg page = [] \<Longrightarrow>
     fst (fetch_page cfg page proxy w) = Inl EmptyResponseException"
  by (auto simp: fetch_page_def ext_call_def)

lemma crawl_single_page_body_cases:
  "(case select_proxy cfg site page w of
      (Inl e, w1) \<Rightarrow> crawl_single_page_body cfg page site w = (Inl e, w1)
    | (Inr proxy, w1) \<Rightarrow>
        (case fetch_page cfg page proxy w1 of
           (Inl e, w2) \<Rightarrow> crawl_single_page_body cfg page site w
              = (Inl (RetryException (Some e)), emit (Log (GetPageError page e)) w2)
         | (Inr resp, w2) \<Rightarrow> crawl_single_page_body cfg page site w
              = (Inr (), snd (parse_site cfg site resp w2))))"
proof -
  have "\<And>resp w2. (case parse_site cfg site resp w2 of
            (Inl e, w3) \<Rightarrow> retry_from page e w3
          | (Inr u, w3) \<Rightarrow> (Inr (), w3)) = (Inr (), snd (parse_site cfg site resp w2))"
    by (subst (1) parse_site_total) simp
  then show ?thesis
    by (simp add: crawl_single_page_body_def retry_from_def split: prod.splits sum.splits)
qed

text \<open>
  Claim C3, as stated, has every exception of steps 1 to 4 re-raised as a
  \<open>RetryException\<close>. The proxy is selected before the \<^verbatim>\<open>try\<close>: when
  \<^verbatim>\<open>IPFactory.get_random_ip\<close> raises, the exception leaves \<open>crawl_single_page\<close> as it
  is, with no cause wrapped and none of the three attempts left to be made.
\<close>

theorem crawl_single_page_wraps_counterexample:
  "fst (select_proxy demo_cfg (demo_site\<lparr>use_proxy := True\<rparr>) ''p1''
          (demo_world\<lparr>faults := [Some (PyException ''ConnectionError'')]\<rparr>))
     = Inl (PyException ''ConnectionError'')
   \<and> fst (crawl_single_page_body demo_cfg ''p1'' (demo_site\<lparr>use_proxy := True\<rparr>)
          (demo_world\<lparr>faults := [Some (PyException ''ConnectionError'')]\<rparr>))
     = Inl (PyException ''ConnectionError'')
   \<and> fst (crawl_single_page demo_cfg ''p1'' (demo_site\<lparr>use_proxy := True\<rparr>)
          (demo_world\<lparr>faults := [Some (PyException ''ConnectionError'')]\<rparr>))
     = Inl (PyException ''ConnectionError'')"
  by (simp add: crawl_single_page_def crawl_single_page_body_def select_proxy_def ext_call_def
      demo_cfg_def demo_site_def demo_world_def numeral_3_eq_3)

text \<open>
  Claim C3, amended. Every exception raised inside the \<^verbatim>\<open>try\<close> of
  \<open>crawl_single_page\<close>, that is by the transport GET, by the read of the body or by the
  test for an empty body (steps 2 to 4), is logged and re-raised as a \<open>RetryException\<close>
  that carries it as its cause. An exception raised by the selection of the proxy
  (step 1) leaves the function unchanged. A call ends in no other way: it returns, or
  raises one of these two.
\<close>

theorem crawl_single_page_wraps:
  "(select_proxy cfg site page w = (Inr proxy, w1) \<and> fetch_page cfg page proxy w1 = (Inl e, w2)
      \<longrightarrow> crawl_single_page_body cfg page site w
            = (Inl (RetryException (Some e)), emit (Log (GetPageError page e)) w2))
   \<and> (select_proxy cfg site page w = (Inl e, w1)
      \<longrightarrow> crawl_single_page_body cfg page site w = (Inl e, w1))
   \<and> (fst (crawl_single_page_body cfg page site w) = Inr ()
      \<or> (\<exists>p v c v2. select_proxy cfg site page w = (Inr p, v) \<and> fetch_page cfg page p v = (Inl c, v2)
            \<and> fst (crawl_single_page_body cfg page site w) = Inl (RetryException (Some c)))
      \<or> (\<exists>c v. select_proxy cfg site page w = (Inl c, v)
            \<and> fst (crawl_single_page_body cfg page site w) = Inl c))"
proof -
  note body = crawl_single_page_body_cases[where cfg = cfg and site = site and page = page and w = w]
  obtain rs v where s: "select_proxy cfg site page w = (rs, v)"
    by (cases "select_proxy cfg site page w")
  show ?thesis
  proof (cases rs)
    case (Inl c)
    with body s show ?thesis by auto
  next
    case (Inr p)
    obtain rf v2 where f: "fetch_page cfg page p v = (rf, v2)"
      by (cases "fetch_page cfg page p v")
    from body s Inr f show ?thesis by (cases rf) auto
  qed
qed

theorem crawl_single_page_wraps_witness:
  "fst (crawl_single_page_body demo_cfg ''p1'' demo_site
          (demo_world\<lparr>faults := [Some (PyException ''TimeoutError'')]\<rparr>))
     = Inl (RetryException (Some (PyException ''TimeoutError'')))
   \<and> fst (crawl_single_page_body demo_cfg ''p1'' demo_site
          (demo_world\<lparr>faults := [None, Some (PyException ''ClientPayloadError'')]\<rparr>))
     = Inl (RetryException (Some (PyException ''ClientPayloadError'')))
   \<and> fst (crawl_single_page_body demo_cfg ''p2'' demo_site demo_world)
     = Inl (RetryException (Some EmptyResponseException))
   \<and> fst (crawl_single_page_body demo_cfg ''p1'' (demo_site\<lparr>use_proxy := True\<rparr>)
          (demo_world\<lparr>faults := [Some (PyException ''ConnectionError'')]\<rparr>))
     = Inl (PyException ''ConnectionError'')"
proof -
  let ?w = "\<lambda>fs. demo_world\<lparr>faults := fs\<rparr>"
  have s: "\<And>page fs. select_proxy demo_cfg demo_site page (?w fs) = (Inr None, ?w fs)"
    by (simp add: select_proxy_def demo_site_def)
  have sp: "select_proxy demo_cfg (demo_site\<lparr>use_proxy := True\<rparr>) ''p1''
      (?w [Some (PyException ''ConnectionError'')])
      = (Inl (PyException ''ConnectionError''), snd (select_proxy demo_cfg (demo_site\<lparr>use_proxy := True\<rparr>) ''p1''
      (?w [Some (PyException ''ConnectionError'')])))"
    by (simp add: select_proxy_def ext_call_def demo_site_def)
  have f1: "fetch_page demo_cfg ''p1'' None (?w [Some (PyException ''TimeoutError'')])
      = (Inl (PyException ''TimeoutError''),
         snd (fetch_page demo_cfg ''p1'' None (?w [Some (PyException ''TimeoutError'')])))"
    by (simp add: fetch_page_def ext_call_def emit_def)
  have f2: "fetch_page demo_cfg ''p1'' None (?w [None, Some (PyException ''ClientPayloadError'')])
      = (Inl (PyException ''ClientPayloadError''),
         snd (fetch_page demo_cfg ''p1'' None (?w [None, Some (PyException ''ClientPayloadError'')])))"
    by (simp add: fetch_page_def ext_call_def emit_def)
  have f3: "fetch_page demo_cfg ''p2'' None (?w [])
      = (Inl EmptyResponseException, snd (fetch_page demo_cfg ''p2'' None (?w [])))"
    by (simp add: fetch_page_def ext_call_def emit_def demo_cfg_def demo_world_def)
  have w0: "?w [] = demo_world" by (simp add: demo_world_def)
  from crawl_single_page_wraps[THEN conjunct1, rule_format, OF conjI, OF s f1]
    crawl_single_page_wraps[THEN conjunct1, rule_format, OF conjI, OF s f2]
    crawl_single_page_wraps[THEN conjunct1, rule_format, OF conjI, OF s f3]
    crawl_single_page_wraps[THEN conjunct2, THEN conjunct1, rule_format, OF sp]
  show ?thesis unfolding w0 by simp
qed

subsection \<open>The retry budget\<close>

lemma counted_apply: "counted f (k, s) = (fst (f s), Suc k, snd (f s))"
  by (simp add: counted_def split: prod.splits)

lemma retry_Suc:
  "retry (Suc n) f s =
     (case fst (f s) of
        Inr v \<Rightarrow> f s
      | Inl e \<Rightarrow> if retryable e then retry n f (snd (f s)) else f s)"
  by (cases "f s") (simp split: sum.splits)

text \<open>Counting changes neither the outcome nor the state.\<close>

lemma retry_counted:
  "fst (retry n (counted f) (k, s)) = fst (retry n f s)
   \<and> snd (snd (retry n (counted f) (k, s))) = snd (retry n f s)"
proof (induction n arbitrary: k s)
  case 0
  show ?case by simp
next
  case (Suc n)
  show ?case
  proof (cases "fst (f s)")
    case (Inr v)
    then show ?thesis by (simp add: retry_Suc counted_apply del: retry.simps)
  next
    case (Inl e)
    then show ?thesis
      using Suc.IH[of "Suc k" "snd (f s)"]
      by (simp add: retry_Suc counted_apply del: retry.simps)
  qed
qed

lemma retry_always_failing:
  assumes "\<forall>s. \<exists>c. fst (f s) = Inl (RetryException c)"
  shows "retry n (counted f) (k, s) = (Inl MaxRetryException, k + n, ((\<lambda>s. snd (f s)) ^^ n) s)"
proof (induction n arbitrary: k s)
  case 0
  show ?case by simp
next
  case (Suc n)
  from assms obtain c where "fst (f s) = Inl (RetryException c)" by blast
  then have "retry (Suc n) (counted f) (k, s) = retry n (counted f) (Suc k, snd (f s))"
    by (simp add: retry_Suc counted_apply del: retry.simps)
  also have "\<dots> = (Inl MaxRetryException, Suc k + n, ((\<lambda>s. snd (f s)) ^^ n) (snd (f s)))"
    by (rule Suc.IH)
  also have "((\<lambda>s. snd (f s)) ^^ n) (snd (f s)) = ((\<lambda>s. snd (f s)) ^^ Suc n) s"
  proof -
    have "\<And>g :: 'a \<Rightarrow> 'a. (g ^^ n) (g s) = (g ^^ Suc n) s"
      by (simp add: funpow_swap1)
    from this[of "\<lambda>s. snd (f s)"] show ?thesis .
  qed
  finally show ?case by simp
qed

text \<open>
  Claim C4. When the wrapped operation raises a retryable failure at every invocation,
  the retry wrapper invokes it exactly as often as the configured maximum says, the
  first attempt included, and then raises \<open>MaxRetryException\<close>; a failure that is not
  retryable leaves the wrapper at once, after the one invocation that raised it, and
  no attempt follows. The counter next to the state counts the invocations.
\<close>

theorem retry_budget:
  "((\<forall>s. \<exists>c. fst (f s) = Inl (RetryException c)) \<longrightarrow>
      retry n (counted f) (k, s) = (Inl MaxRetryException, k + n, ((\<lambda>s. snd (f s)) ^^ n) s))
   \<and> (fst (f s) = Inl e \<and> \<not> retryable e \<longrightarrow>
      retry (Suc n) (counted f) (k, s) = (Inl e, Suc k, snd (f s)))"
  using retry_always_failing[of f n k s] by (simp add: retry_Suc counted_apply del: retry.simps)

lemma empty_page_always_retryable:
  assumes "page_text cfg page = []" and "\<not> use_proxy site"
  shows "\<exists>c. fst (crawl_single_page_body cfg page site w) = Inl (RetryException c)"
proof -
  have s: "select_proxy cfg site page w = (Inr None, w)"
    using assms(2) by (simp add: select_proxy_def)
  obtain rf w2 where f: "fetch_page cfg page None w = (rf, w2)"
    by (cases "fetch_page cfg page None w")
  with assms(1) obtain e where "rf = Inl e"
    by (auto simp: fetch_page_def split: prod.splits option.splits)
  with s f show ?thesis
    using crawl_single_page_body_cases[where cfg = cfg and site = site and page = page and w = w]
    by simp
qed

theorem retry_budget_witness:
  "retry 3 (counted (crawl_single_page_body demo_cfg ''p2'' demo_site)) (0, demo_world)
     = (Inl MaxRetryException, 0 + 3,
        ((\<lambda>s. snd (crawl_single_page_body demo_cfg ''p2'' demo_site s)) ^^ 3) demo_world)
   \<and> retry (Suc 2) (counted (crawl_single_page_body demo_cfg ''p1'' (demo_site\<lparr>use_proxy := True\<rparr>)))
        (0, demo_world\<lparr>faults := [Some (PyException ''ConnectionError'')]\<rparr>)
     = (Inl (PyException ''ConnectionError''), Suc 0,
        snd (crawl_single_page_body demo_cfg ''p1'' (demo_site\<lparr>use_proxy := True\<rparr>)
               (demo_world\<lparr>faults := [Some (PyException ''ConnectionError'')]\<rparr>)))"
proof -
  have always: "\<forall>s. \<exists>c. fst (crawl_single_page_body demo_cfg ''p2'' demo_site s) = Inl (RetryException c)"
    by (intro allI empty_page_always_retryable) (simp_all add: demo_cfg_def demo_site_def)
  have once: "fst (crawl_single_page_body demo_cfg ''p1'' (demo_site\<lparr>use_proxy := True\<rparr>)
               (demo_world\<lparr>faults := [Some (PyException ''ConnectionError'')]\<rparr>))
            = Inl (PyException ''ConnectionError'')
        \<and> \<not> retryable (PyException ''ConnectionError'')"
    by (simp add: crawl_single_page_body_def select_proxy_def ext_call_def demo_site_def)
  from retry_budget[THEN conjunct1, THEN mp, OF always, of 3 0 demo_world]
    retry_budget[where f = "crawl_single_page_body demo_cfg ''p1'' (demo_site\<lparr>use_proxy := True\<rparr>)"
      and s = "demo_world\<lparr>faults := [Some (PyException ''ConnectionError'')]\<rparr>"
      and e = "PyException ''ConnectionError''" and n = 2 and k = 0,
      THEN conjunct2, THEN mp, OF once]
  show ?thesis ..
qed

text \<open>The three attempts at the empty page, as the trace has them.\<close>

lemma empty_page_three_gets:
  "crawl_single_page demo_cfg ''p2'' demo_site demo_world
     = (Inl MaxRetryException, demo_world\<lparr>events :=
         [Get ''p2'' None, Log (GetPageError ''p2'' EmptyResponseException),
          Get ''p2'' None, Log (GetPageError ''p2'' EmptyResponseException),
          Get ''p2'' None, Log (GetPageError ''p2'' EmptyResponseException)]\<rparr>)"
  by (simp add: crawl_single_page_def crawl_single_page_body_def select_proxy_def fetch_page_def
      retry_from_def ext_call_def emit_def demo_cfg_def demo_site_def demo_world_def numeral_3_eq_3)

subsection \<open>Pacing and skipping in \<open>crawl_site\<close>\<close>

lemma crawl_site_page_events:
  "events (snd (crawl_site_page cfg site page w)) =
     events (snd (crawl_single_page cfg page site w))
     @ (if fst (crawl_single_page cfg page site w) = Inl MaxRetryException
        then [Log (MaxRetrySkip MaxRetryException)] else [])
     @ (if page_interval site \<noteq> 0 then [Sleep (page_interval site)] else [])"
proof -
  obtain r1 w1 where c: "crawl_single_page cfg page site w = (r1, w1)"
    by (cases "crawl_single_page cfg page site w")
  show ?thesis
    unfolding crawl_site_page_run[OF c] c by (simp add: pace_def)
qed

lemma crawl_site_page_sleeps:
  "sleeps_of (snd (crawl_site_page cfg site page w)) =
     sleeps_of w @ (if page_interval site \<noteq> 0 then [Sleep (page_interval site)] else [])"
proof -
  obtain r1 w1 where c: "crawl_single_page cfg page site w = (r1, w1)"
    by (cases "crawl_single_page cfg page site w")
  from crawl_single_page_frame[OF c] have "sleeps_of w1 = sleeps_of w" by simp
  then show ?thesis
    unfolding crawl_site_page_run[OF c] by simp
qed

lemma crawl_pages_sleeps:
  "sleeps_of (snd (crawl_pages cfg site ps w)) =
     sleeps_of w @ (if page_interval site \<noteq> 0
                    then replicate (visits cfg site ps w) (Sleep (page_interval site)) else [])"
proof (induction ps arbitrary: w)
  case Nil
  show ?case by simp
next
  case (Cons page rest)
  obtain r1 w1 where c: "crawl_site_page cfg site page w = (r1, w1)"
    by (cases "crawl_site_page cfg site page w")
  have s1: "sleeps_of w1 =
     sleeps_of w @ (if page_interval site \<noteq> 0 then [Sleep (page_interval site)] else [])"
    using crawl_site_page_sleeps[of cfg site page w] c by simp
  show ?case
  proof (cases r1)
    case (Inl e)
    with c s1 show ?thesis by simp
  next
    case (Inr u)
    with c s1 Cons.IH[of w1] show ?thesis by (simp add: replicate_append_same)
  qed
qed

text \<open>
  Claim C5. With a pacing interval that is not zero, every turn of the page loop of
  \<open>crawl_site\<close> executes the pacing sleep exactly once, and after the visit: the visit
  itself sleeps never, and the turn appends to the visit's trace the skip message, when
  the visit ended in \<open>MaxRetryException\<close>, and then the one sleep. That holds for every
  outcome of the visit: a return, retry exhaustion, or another exception. Over a
  whole list of pages the loop sleeps once for each page it visits.
\<close>

theorem pacing_after_every_page:
  assumes "page_interval site \<noteq> 0"
  shows "sleeps_of (snd (crawl_single_page cfg page site w)) = sleeps_of w
     \<and> events (snd (crawl_site_page cfg site page w)) =
         events (snd (crawl_single_page cfg page site w))
         @ (if fst (crawl_single_page cfg page site w) = Inl MaxRetryException
            then [Log (MaxRetrySkip MaxRetryException)] else [])
         @ [Sleep (page_interval site)]
     \<and> sleeps_of (snd (crawl_site_page cfg site page w)) = sleeps_of w @ [Sleep (page_interval site)]
     \<and> sleeps_of (snd (crawl_pages cfg site ps w)) =
         sleeps_of w @ replicate (visits cfg site ps w) (Sleep (page_interval site))"
proof -
  have "sleeps_of (snd (crawl_single_page cfg page site w)) = sleeps_of w"
    using crawl_single_page_frame[of cfg page site w] by (simp add: prod_eq_iff)
  with assms show ?thesis
    using crawl_site_page_events[of cfg site page w] crawl_site_page_sleeps[of cfg site page w]
      crawl_pages_sleeps[of cfg site ps w]
    by simp
qed


text \<open>The definitions a concrete run unfolds.\<close>

lemmas run_defs =
  crawl_site_page_def crawl_single_page_def crawl_single_page_body_def select_proxy_def
  fetch_page_def retry_from_def parse_site_def parse_result_def save_parse_result_def
  show_result_def push_to_pool_def zscore_def zadd_def checker_push_def ext_call_def
  emit_def pace_def numeral_3_eq_3

lemmas demo_defs = demo_cfg_def demo_site_def demo_world_def demo_parser_def

theorem pacing_after_every_page_witness:
  "page_interval demo_site \<noteq> 0
   \<and> fst (crawl_single_page demo_cfg ''p1'' demo_site demo_world) = Inr ()
   \<and> sleeps_of (snd (crawl_site_page demo_cfg demo_site ''p1'' demo_world)) = [Sleep 2]
   \<and> fst (crawl_single_page demo_cfg ''p2'' demo_site demo_world) = Inl MaxRetryException
   \<and> sleeps_of (snd (crawl_site_page demo_cfg demo_site ''p2'' demo_world)) = [Sleep 2]
   \<and> fst (crawl_single_page demo_cfg ''p1'' (demo_site\<lparr>use_proxy := True\<rparr>)
            (demo_world\<lparr>faults := [Some (PyException ''ConnectionError'')]\<rparr>))
       = Inl (PyException ''ConnectionError'')
   \<and> sleeps_of (snd (crawl_site_page demo_cfg (demo_site\<lparr>use_proxy := True\<rparr>) ''p1''
            (demo_world\<lparr>faults := [Some (PyException ''ConnectionError'')]\<rparr>))) = [Sleep 2]
   \<and> sleeps_of (snd (crawl_pages demo_cfg demo_site [''p1'', ''p2''] demo_world))
       = [Sleep 2, Sleep 2]"
proof -
  let ?proxied = "demo_site\<lparr>use_proxy := True\<rparr>"
  let ?down = "demo_world\<lparr>faults := [Some (PyException ''ConnectionError'')]\<rparr>"
  have i: "page_interval demo_site \<noteq> 0" "page_interval ?proxied \<noteq> 0"
    by (simp_all add: demo_site_def)
  have v: "page_interval demo_site = 2" "page_interval ?proxied = 2"
    "sleeps_of demo_world = []" "sleeps_of ?down = []"
    by (simp_all add: demo_site_def demo_world_def sleeps_of_def)
  have r1: "fst (crawl_single_page demo_cfg ''p1'' demo_site demo_world) = Inr ()"
    by (simp add: run_defs demo_defs)
  have r2: "fst (crawl_single_page demo_cfg ''p2'' demo_site demo_world) = Inl MaxRetryException"
    by (simp add: run_defs demo_defs)
  have r3: "fst (crawl_single_page demo_cfg ''p1'' ?proxied ?down) = Inl (PyException ''ConnectionError'')"
    by (simp add: run_defs demo_defs)
  have n: "visits demo_cfg demo_site [''p1'', ''p2''] demo_world = Suc (Suc 0)"
    by (simp add: run_defs demo_defs)
  from pacing_after_every_page[OF i(1), of demo_cfg "''p1''" demo_world "[''p1'', ''p2'']"]
    pacing_after_every_page[OF i(1), of demo_cfg "''p2''" demo_world "[]"]
    pacing_after_every_page[OF i(2), of demo_cfg "''p1''" ?down "[]"]
  show ?thesis
    unfolding v n using i(1) r1 r2 r3 by simp
qed

text \<open>
  Claim C6. When \<open>crawl_single_page\<close> raises \<open>MaxRetryException\<close> for a page, the turn
  of the loop logs the skip, paces and ends normally, so that the loop goes on with the
  next page of the source. \<open>MaxRetryException\<close> therefore never leaves \<open>crawl_site\<close>,
  and never leaves \<open>start_crawl\<close>: retry exhaustion aborts neither the remaining pages
  of the source nor the pass over the other sources.
\<close>

theorem max_retry_skips_page:
  "(crawl_single_page cfg page site w = (Inl MaxRetryException, w1) \<longrightarrow>
      crawl_site_page cfg site page w
        = (Inr (), pace site (emit (Log (MaxRetrySkip MaxRetryException)) w1))
      \<and> crawl_pages cfg site (page # rest) w
        = crawl_pages cfg site rest (pace site (emit (Log (MaxRetrySkip MaxRetryException)) w1)))
   \<and> fst (crawl_site_page cfg site page w) \<noteq> Inl MaxRetryException
   \<and> fst (crawl_site cfg site page_limit w) \<noteq> Inl MaxRetryException
   \<and> fst (start_crawl cfg w) \<noteq> Inl MaxRetryException"
proof -
  have turn: "fst (crawl_site_page cfg site page w) \<noteq> Inl MaxRetryException"
    for cfg site page w
  proof -
    obtain r1 v where c: "crawl_single_page cfg page site w = (r1, v)"
      by (cases "crawl_single_page cfg page site w")
    show ?thesis unfolding crawl_site_page_run[OF c] by simp
  qed
  have loop: "fst (crawl_pages cfg site ps w) \<noteq> Inl MaxRetryException" for cfg site ps w
  proof (induction ps arbitrary: w)
    case Nil
    show ?case by simp
  next
    case (Cons p ps)
    obtain r1 v where c: "crawl_site_page cfg site p w = (r1, v)"
      by (cases "crawl_site_page cfg site p w")
    with turn[of cfg site p w] Cons.IH[of v] show ?case by (cases r1) simp_all
  qed
  have pass: "fst (crawl_sites cfg sites w) \<noteq> Inl MaxRetryException" for cfg sites w
  proof (induction cfg sites w rule: crawl_sites.induct)
    case (1 cfg w)
    show ?case by simp
  next
    case (2 cfg k site rest w)
    show ?case
    proof (cases "enabled site")
      case False
      with 2 show ?thesis by simp
    next
      case True
      obtain r1 v where c: "crawl_site cfg site 0 w = (r1, v)"
        by (cases "crawl_site cfg site 0 w")
      from loop[of cfg site "limit_pages 0 (pages site)" w] c
      have ne: "r1 \<noteq> Inl MaxRetryException" by (simp add: crawl_site_def)
      show ?thesis
      proof (cases r1)
        case (Inl e)
        with True c ne show ?thesis by simp
      next
        case (Inr u)
        with True c "2.IH"(1)[OF True c[symmetric] Inr] show ?thesis by simp
      qed
    qed
  qed
  show ?thesis
    using turn[of cfg site page w] loop[of cfg site "limit_pages page_limit (pages site)" w]
      pass[of cfg "configs w" w]
    by (auto simp: crawl_site_def start_crawl_def crawl_site_page_run)
qed

theorem max_retry_skips_page_witness:
  "fst (crawl_single_page demo_cfg ''p2'' demo_site demo_world) = Inl MaxRetryException
   \<and> fst (crawl_site_page demo_cfg demo_site ''p2'' demo_world) = Inr ()
   \<and> crawl_pages demo_cfg demo_site [''p2'', ''p1''] demo_world
       = crawl_pages demo_cfg demo_site [''p1'']
           (pace demo_site (emit (Log (MaxRetrySkip MaxRetryException))
              (snd (crawl_single_page demo_cfg ''p2'' demo_site demo_world))))
   \<and> sinks_of (snd (crawl_pages demo_cfg demo_site [''p2'', ''p1''] demo_world))
       = [Zadd ''1.2.3.4:80'' 10, Zadd ''5.6.7.8:80'' 10, Forward [''1.2.3.4:80'', ''5.6.7.8:80'']]"
proof -
  have r: "fst (crawl_single_page demo_cfg ''p2'' demo_site demo_world) = Inl MaxRetryException"
    by (simp add: run_defs demo_defs)
  then have run: "crawl_single_page demo_cfg ''p2'' demo_site demo_world
      = (Inl MaxRetryException, snd (crawl_single_page demo_cfg ''p2'' demo_site demo_world))"
    by (simp add: prod_eq_iff)
  have s: "sinks_of (snd (crawl_pages demo_cfg demo_site [''p2'', ''p1''] demo_world))
       = [Zadd ''1.2.3.4:80'' 10, Zadd ''5.6.7.8:80'' 10, Forward [''1.2.3.4:80'', ''5.6.7.8:80'']]"
    by (simp add: run_defs demo_defs sinks_of_def)
  from max_retry_skips_page[THEN conjunct1, THEN mp, OF run, of "[''p1'']"] r s
  show ?thesis by simp
qed

subsection \<open>The parse boundary\<close>

text \<open>An exception that leaves the retries is the exhaustion signal or one the operation raised.\<close>

lemma retry_Inl:
  "retry n f s = (Inl e, s') \<Longrightarrow>
   e = MaxRetryException \<or> (\<exists>s1. fst (f s1) = Inl e \<and> \<not> retryable e)"
proof (induction n arbitrary: s)
  case 0
  then show ?case by simp
next
  case (Suc n)
  show ?case
  proof (cases "fst (f s)")
    case (Inr v)
    with Suc.prems show ?thesis by (simp add: retry_Suc del: retry.simps)
  next
    case (Inl x)
    show ?thesis
    proof (cases "retryable x")
      case True
      with Suc.prems Inl have "retry n f (snd (f s)) = (Inl e, s')"
        by (simp add: retry_Suc del: retry.simps)
      from Suc.IH[OF this] show ?thesis .
    next
      case False
      with Suc.prems Inl have "f s = (Inl e, s')"
        by (simp add: retry_Suc del: retry.simps)
      with Inl False have "fst (f s) = Inl e \<and> \<not> retryable e" by simp
      then show ?thesis by blast
    qed
  qed
qed

lemma retry_first_success:
  assumes "fst (f s) = Inr v"
  shows "retry (Suc n) f s = f s"
  using assms by (simp add: retry_Suc del: retry.simps)

text \<open>Only the selection of the proxy raises out of the page function unwrapped.\<close>

lemma crawl_single_page_body_unwrapped:
  assumes "fst (crawl_single_page_body cfg page site v) = Inl e" and "\<not> retryable e"
  shows "fst (select_proxy cfg site page v) = Inl e \<and> use_proxy site"
proof -
  note body = crawl_single_page_body_cases[where cfg = cfg and site = site and page = page and w = v]
  obtain rs v1 where s: "select_proxy cfg site page v = (rs, v1)"
    by (cases "select_proxy cfg site page v")
  show ?thesis
  proof (cases rs)
    case (Inl c)
    with body s assms have "c = e" by simp
    moreover from s Inl have "use_proxy site"
      by (auto simp: select_proxy_def split: if_splits)
    ultimately show ?thesis using s Inl by simp
  next
    case (Inr p)
    obtain rf v2 where f: "fetch_page cfg page p v1 = (rf, v2)"
      by (cases "fetch_page cfg page p v1")
    from body s Inr f assms show ?thesis by (cases rf) auto
  qed
qed

lemma crawl_site_page_Inl:
  assumes "fst (crawl_site_page cfg site page w) = Inl e"
  shows "use_proxy site \<and> (\<exists>v. fst (select_proxy cfg site page v) = Inl e)"
proof -
  obtain r1 w1 where c: "crawl_single_page cfg page site w = (r1, w1)"
    by (cases "crawl_single_page cfg page site w")
  from assms have r1: "r1 = Inl e" "e \<noteq> MaxRetryException"
    unfolding crawl_site_page_run[OF c] by (auto split: if_splits)
  from c r1 have "retry (retry_num cfg) (crawl_single_page_body cfg page site) w = (Inl e, w1)"
    by (simp add: crawl_single_page_def)
  from retry_Inl[OF this] r1(2) obtain v where
    "fst (crawl_single_page_body cfg page site v) = Inl e" "\<not> retryable e"
    by blast
  from crawl_single_page_body_unwrapped[OF this] show ?thesis by blast
qed

lemma crawl_pages_Inl:
  "fst (crawl_pages cfg site ps w) = Inl e \<Longrightarrow>
   use_proxy site \<and> (\<exists>page v. page \<in> set ps \<and> fst (select_proxy cfg site page v) = Inl e)"
proof (induction ps arbitrary: w)
  case Nil
  then show ?case by simp
next
  case (Cons p ps)
  obtain r1 w1 where c: "crawl_site_page cfg site p w = (r1, w1)"
    by (cases "crawl_site_page cfg site p w")
  show ?case
  proof (cases r1)
    case (Inl x)
    with Cons.prems c have "fst (crawl_site_page cfg site p w) = Inl e" by simp
    from crawl_site_page_Inl[OF this] show ?thesis by auto
  next
    case (Inr u)
    with Cons.prems c have "fst (crawl_pages cfg site ps w1) = Inl e" by simp
    from Cons.IH[OF this] show ?thesis by auto
  qed
qed

text \<open>A source whose parser raises on every response changes neither pool nor sink.\<close>

lemma broken_parser_parse_site:
  assumes "parsers v (key site) = Some parser" and "\<forall>r. \<exists>x. parser r = Inl x"
    and "parse_site cfg site resp v = (r, v')"
  shows "pool v' = pool v \<and> sinks_of v' = sinks_of v"
proof -
  from assms(2) obtain x where "parser resp = Inl x" by blast
  with assms(1,3) show ?thesis by (auto simp: parse_site_def parse_result_def)
qed

lemma broken_parser_body:
  assumes p: "parsers v (key site) = Some parser" "\<forall>r. \<exists>x. parser r = Inl x"
    and run: "crawl_single_page_body cfg page site v = (r, v')"
  shows "pool v' = pool v \<and> sinks_of v' = sinks_of v"
proof -
  note body = crawl_single_page_body_cases[where cfg = cfg and site = site and page = page and w = v]
  obtain rs v1 where s: "select_proxy cfg site page v = (rs, v1)"
    by (cases "select_proxy cfg site page v")
  note f1 = select_proxy_frame[OF s]
  show ?thesis
  proof (cases rs)
    case (Inl c)
    with body s run f1 show ?thesis by simp
  next
    case (Inr px)
    obtain rf v2 where f: "fetch_page cfg page px v1 = (rf, v2)"
      by (cases "fetch_page cfg page px v1")
    note f2 = fetch_page_frame[OF f]
    show ?thesis
    proof (cases rf)
      case Inl2: (Inl c)
      with body s Inr f run f1 f2 show ?thesis by auto
    next
      case Inr2: (Inr resp)
      have "parsers v2 (key site) = Some parser" using p(1) f1 f2 by simp
      from broken_parser_parse_site[OF this p(2), of cfg resp "fst (parse_site cfg site resp v2)"
          "snd (parse_site cfg site resp v2)"]
      have "pool (snd (parse_site cfg site resp v2)) = pool v2
          \<and> sinks_of (snd (parse_site cfg site resp v2)) = sinks_of v2"
        by simp
      with body s Inr f Inr2 run f1 f2 show ?thesis by auto
    qed
  qed
qed

lemma broken_parser_page:
  assumes p: "parsers w (key site) = Some parser" "\<forall>r. \<exists>x. parser r = Inl x"
    and run: "crawl_single_page cfg page site w = (r, w')"
  shows "pool w' = pool w \<and> sinks_of w' = sinks_of w"
proof -
  have "parsers w (key site) = Some parser \<longrightarrow>
      parsers w' = parsers w \<and> pool w' = pool w \<and> sinks_of w' = sinks_of w"
    using run unfolding crawl_single_page_def
  proof (rule retry_rel[where R = "\<lambda>v v'. parsers v (key site) = Some parser \<longrightarrow>
        parsers v' = parsers v \<and> pool v' = pool v \<and> sinks_of v' = sinks_of v", rotated -1])
    fix s r s1
    assume b: "crawl_single_page_body cfg page site s = (r, s1)"
    show "parsers s (key site) = Some parser \<longrightarrow>
        parsers s1 = parsers s \<and> pool s1 = pool s \<and> sinks_of s1 = sinks_of s"
      using crawl_single_page_body_frame[OF b] broken_parser_body[OF _ p(2) b] by simp
  qed simp_all
  with p(1) show ?thesis by simp
qed

lemma broken_parser_pages:
  "parsers w (key site) = Some parser \<Longrightarrow> \<forall>r. \<exists>x. parser r = Inl x \<Longrightarrow>
   crawl_pages cfg site ps w = (r, w') \<Longrightarrow> pool w' = pool w \<and> sinks_of w' = sinks_of w"
proof (induction ps arbitrary: w)
  case Nil
  then show ?case by simp
next
  case (Cons page rest)
  obtain r0 w0 where c0: "crawl_single_page cfg page site w = (r0, w0)"
    by (cases "crawl_single_page cfg page site w")
  obtain r1 w1 where c: "crawl_site_page cfg site page w = (r1, w1)"
    by (cases "crawl_site_page cfg site page w")
  from broken_parser_page[OF Cons.prems(1,2) c0] c
  have f: "pool w1 = pool w" "sinks_of w1 = sinks_of w"
    unfolding crawl_site_page_run[OF c0] by (auto split: if_splits)
  have ps: "parsers w1 (key site) = Some parser"
    using crawl_site_page_frame[OF c] Cons.prems(1) by simp
  show ?case
  proof (cases r1)
    case (Inl e)
    with Cons.prems(3) c f show ?thesis by simp
  next
    case (Inr u)
    with Cons.prems(3) c have "crawl_pages cfg site rest w1 = (r, w')" by simp
    from Cons.IH[OF ps Cons.prems(2) this] f show ?thesis by simp
  qed
qed

text \<open>
  Claim C7. For a source with a bound parser, an exception raised by the parser is
  caught in \<open>parse_site\<close>, logged, and goes no further: \<open>parse_site\<close> returns, the world
  has gained the log line and nothing else, so the pool is as it was and nothing was
  forwarded. The function under the decorator thereby returns normally, and so, with
  an attempt count that is not zero, do \<open>crawl_single_page\<close> and the turn of the page
  loop, and \<open>crawl_pages\<close> goes on with the pages that follow. Over a whole source
  whose parser raises on every response the pool is unchanged and nothing is forwarded.
  An exception that ends a source was raised by the selection of a proxy for one of its
  pages, never by the parser: a source that uses no proxy always returns, and the pass
  goes on with the sources after it.
\<close>

theorem parser_error_contained:
  "(parsers w (key site) = Some parser \<and> parser resp = Inl e \<longrightarrow>
      parse_site cfg site resp w = (Inr (), emit (Log (ParseError e)) w)
      \<and> pool (snd (parse_site cfg site resp w)) = pool w
      \<and> sinks_of (snd (parse_site cfg site resp w)) = sinks_of w)
   \<and> (select_proxy cfg site page w = (Inr proxy, w1) \<and> fetch_page cfg page proxy w1 = (Inr resp, w2)
        \<and> parsers w (key site) = Some parser \<and> parser resp = Inl e \<longrightarrow>
      crawl_single_page_body cfg page site w = (Inr (), emit (Log (ParseError e)) w2))
   \<and> (select_proxy cfg site page w = (Inr proxy, w1) \<and> fetch_page cfg page proxy w1 = (Inr resp, w2)
        \<and> parsers w (key site) = Some parser \<and> parser resp = Inl e \<and> retry_num cfg \<noteq> 0 \<longrightarrow>
      crawl_single_page cfg page site w = (Inr (), emit (Log (ParseError e)) w2)
      \<and> crawl_site_page cfg site page w = (Inr (), pace site (emit (Log (ParseError e)) w2))
      \<and> crawl_pages cfg site (page # rest) w
          = crawl_pages cfg site rest (pace site (emit (Log (ParseError e)) w2)))
   \<and> (parsers w (key site) = Some parser \<and> (\<forall>r. \<exists>x. parser r = Inl x) \<longrightarrow>
      pool (snd (crawl_site cfg site page_limit w)) = pool w
      \<and> sinks_of (snd (crawl_site cfg site page_limit w)) = sinks_of w)
   \<and> (fst (crawl_site cfg site page_limit w) = Inl e' \<longrightarrow>
      use_proxy site
      \<and> (\<exists>pg v. pg \<in> set (pages site) \<and> fst (select_proxy cfg site pg v) = Inl e'))
   \<and> (\<not> use_proxy site \<longrightarrow>
      fst (crawl_site cfg site page_limit w) = Inr ()
      \<and> crawl_sites cfg ((k, site) # sites) w
          = crawl_sites cfg sites (if enabled site then snd (crawl_site cfg site 0 w) else w))"
proof -
  have a: "parse_site cfg site resp v = (Inr (), emit (Log (ParseError e)) v)"
    if "parsers v (key site) = Some parser" "parser resp = Inl e" for v
    using that by (simp add: parse_site_def parse_result_def)
  have b: "crawl_single_page_body cfg page site w = (Inr (), emit (Log (ParseError e)) w2)"
    if s: "select_proxy cfg site page w = (Inr proxy, w1)"
      and f: "fetch_page cfg page proxy w1 = (Inr resp, w2)"
      and p: "parsers w (key site) = Some parser" "parser resp = Inl e"
  proof -
    from select_proxy_frame[OF s] fetch_page_frame[OF f] have "parsers w2 = parsers w" by simp
    with p have "parse_site cfg site resp w2 = (Inr (), emit (Log (ParseError e)) w2)"
      by (intro a) simp_all
    with s f show ?thesis
      using crawl_single_page_body_cases[where cfg = cfg and site = site and page = page and w = w]
      by simp
  qed
  have c: "crawl_single_page cfg page site w = (Inr (), emit (Log (ParseError e)) w2)
      \<and> crawl_site_page cfg site page w = (Inr (), pace site (emit (Log (ParseError e)) w2))
      \<and> crawl_pages cfg site (page # rest) w
          = crawl_pages cfg site rest (pace site (emit (Log (ParseError e)) w2))"
    if s: "select_proxy cfg site page w = (Inr proxy, w1)"
      and f: "fetch_page cfg page proxy w1 = (Inr resp, w2)"
      and p: "parsers w (key site) = Some parser" "parser resp = Inl e"
      and n: "retry_num cfg \<noteq> 0"
  proof -
    note body = b[OF s f p]
    from n obtain m where m: "retry_num cfg = Suc m" by (cases "retry_num cfg") simp_all
    have visit: "crawl_single_page cfg page site w = (Inr (), emit (Log (ParseError e)) w2)"
      unfolding crawl_single_page_def m
      using retry_first_success[of "crawl_single_page_body cfg page site" w "()" m] body
      by simp
    have turn: "crawl_site_page cfg site page w = (Inr (), pace site (emit (Log (ParseError e)) w2))"
      unfolding crawl_site_page_run[OF visit] by simp
    from visit turn show ?thesis by simp
  qed
  have d: "pool (snd (crawl_site cfg site page_limit w)) = pool w
      \<and> sinks_of (snd (crawl_site cfg site page_limit w)) = sinks_of w"
    if "parsers w (key site) = Some parser" "\<forall>r. \<exists>x. parser r = Inl x"
    unfolding crawl_site_def
    using broken_parser_pages[OF that, of cfg "limit_pages page_limit (pages site)"
        "fst (crawl_pages cfg site (limit_pages page_limit (pages site)) w)"
        "snd (crawl_pages cfg site (limit_pages page_limit (pages site)) w)"]
    by simp
  have lim: "set (limit_pages page_limit (pages site)) \<subseteq> set (pages site)"
    by (auto simp: limit_pages_def dest: in_set_takeD)
  have g: "use_proxy site \<and> (\<exists>pg v. pg \<in> set (pages site) \<and> fst (select_proxy cfg site pg v) = Inl e')"
    if "fst (crawl_site cfg site page_limit w) = Inl e'"
    using crawl_pages_Inl[OF that[unfolded crawl_site_def]] lim by blast
  have h: "fst (crawl_site cfg site lim w) = Inr ()" if "\<not> use_proxy site" for lim
  proof (cases "fst (crawl_site cfg site lim w)")
    case (Inl x)
    from crawl_pages_Inl[OF Inl[unfolded crawl_site_def]] that show ?thesis by simp
  next
    case (Inr u)
    then show ?thesis by simp
  qed
  have i: "crawl_sites cfg ((k, site) # sites) w
          = crawl_sites cfg sites (if enabled site then snd (crawl_site cfg site 0 w) else w)"
    if "\<not> use_proxy site"
    using h[OF that, of 0] by (cases "crawl_site cfg site 0 w") simp
  show ?thesis using a[of w] b c d g h[of page_limit] i by simp
qed


theorem parser_error_contained_witness:
  "parse_site demo_cfg demo_site \<lparr>text_of = ''1.2.3.4:80'', url = ''p1''\<rparr>
      (parse ''S1'' (\<lambda>resp. Inl (PyException ''ValueError'')) demo_world)
     = (Inr (), emit (Log (ParseError (PyException ''ValueError'')))
         (parse ''S1'' (\<lambda>resp. Inl (PyException ''ValueError'')) demo_world))
   \<and> fst (crawl_pages demo_cfg demo_site [''p1'', ''p1'']
        (parse ''S1'' (\<lambda>resp. Inl (PyException ''ValueError'')) demo_world)) = Inr ()
   \<and> events (snd (crawl_pages demo_cfg demo_site [''p1'', ''p1'']
        (parse ''S1'' (\<lambda>resp. Inl (PyException ''ValueError'')) demo_world)))
     = [Get ''p1'' None, Log (ParseError (PyException ''ValueError'')), Sleep 2,
        Get ''p1'' None, Log (ParseError (PyException ''ValueError'')), Sleep 2]
   \<and> crawl_pages demo_cfg demo_site [''p1'', ''p2'']
        (parse ''S1'' (\<lambda>resp. Inl (PyException ''ValueError'')) demo_world)
     = crawl_pages demo_cfg demo_site [''p2'']
        (pace demo_site (emit (Log (ParseError (PyException ''ValueError'')))
          (snd (fetch_page demo_cfg ''p1'' None
                 (parse ''S1'' (\<lambda>resp. Inl (PyException ''ValueError'')) demo_world)))))
   \<and> pool (snd (crawl_site demo_cfg demo_site 0
        (config ''S2'' demo_site (parse ''S2'' demo_parser
          (parse ''S1'' (\<lambda>resp. Inl (PyException ''ValueError'')) demo_world))))) = Map.empty
   \<and> crawl_sites demo_cfg [(''S1'', demo_site), (''S2'', demo_site\<lparr>key := ''S2''\<rparr>)]
        (config ''S2'' demo_site (parse ''S2'' demo_parser
          (parse ''S1'' (\<lambda>resp. Inl (PyException ''ValueError'')) demo_world)))
     = crawl_sites demo_cfg [(''S2'', demo_site\<lparr>key := ''S2''\<rparr>)]
        (snd (crawl_site demo_cfg demo_site 0
          (config ''S2'' demo_site (parse ''S2'' demo_parser
            (parse ''S1'' (\<lambda>resp. Inl (PyException ''ValueError'')) demo_world)))))
   \<and> fst (start_crawl demo_cfg
        (config ''S2'' demo_site (parse ''S2'' demo_parser
          (parse ''S1'' (\<lambda>resp. Inl (PyException ''ValueError'')) demo_world)))) = Inr ()
   \<and> sinks_of (snd (start_crawl demo_cfg
        (config ''S2'' demo_site (parse ''S2'' demo_parser
          (parse ''S1'' (\<lambda>resp. Inl (PyException ''ValueError'')) demo_world)))))
     = [Zadd ''1.2.3.4:80'' 10, Zadd ''5.6.7.8:80'' 10, Forward [''1.2.3.4:80'', ''5.6.7.8:80'']]
   \<and> sleeps_of (snd (start_crawl demo_cfg
        (config ''S2'' demo_site (parse ''S2'' demo_parser
          (parse ''S1'' (\<lambda>resp. Inl (PyException ''ValueError'')) demo_world)))))
     = [Sleep 2, Sleep 2, Sleep 2, Sleep 2]"
proof -
  let ?broken = "\<lambda>resp :: site_response. Inl (PyException ''ValueError'') :: exn + parsed_item list"
  let ?resp = "\<lparr>text_of = ''1.2.3.4:80'', url = ''p1''\<rparr>"
  let ?w = "parse ''S1'' ?broken demo_world"
  let ?two = "config ''S2'' demo_site (parse ''S2'' demo_parser ?w)"
  have h: "parsers ?w (key demo_site) = Some ?broken \<and> ?broken ?resp = Inl (PyException ''ValueError'')"
    by (simp add: parse_def demo_site_def)
  have r: "fst (crawl_pages demo_cfg demo_site [''p1'', ''p1''] ?w) = Inr ()"
    by (simp add: run_defs demo_defs parse_def)
  have ev: "events (snd (crawl_pages demo_cfg demo_site [''p1'', ''p1''] ?w))
     = [Get ''p1'' None, Log (ParseError (PyException ''ValueError'')), Sleep 2,
        Get ''p1'' None, Log (ParseError (PyException ''ValueError'')), Sleep 2]"
    by (simp add: run_defs demo_defs parse_def)
  note c1 = parser_error_contained[THEN conjunct1, THEN mp, OF h, of demo_cfg]
  have s: "select_proxy demo_cfg demo_site ''p1'' ?w = (Inr None, ?w)"
    by (simp add: select_proxy_def demo_site_def)
  have "fst (fetch_page demo_cfg ''p1'' None ?w) = Inr ?resp"
    by (simp add: fetch_page_def ext_call_def emit_def parse_def demo_defs)
  then have f: "fetch_page demo_cfg ''p1'' None ?w = (Inr ?resp, snd (fetch_page demo_cfg ''p1'' None ?w))"
    by (simp add: prod_eq_iff)
  have n: "retry_num demo_cfg \<noteq> 0" by (simp add: demo_cfg_def)
  have h3: "select_proxy demo_cfg demo_site ''p1'' ?w = (Inr None, ?w)
      \<and> fetch_page demo_cfg ''p1'' None ?w = (Inr ?resp, snd (fetch_page demo_cfg ''p1'' None ?w))
      \<and> parsers ?w (key demo_site) = Some ?broken \<and> ?broken ?resp = Inl (PyException ''ValueError'')
      \<and> retry_num demo_cfg \<noteq> 0"
    using s f h n by blast
  note c3 = parser_error_contained[where cfg = demo_cfg and site = demo_site and page = "''p1''"
      and w = ?w and proxy = None and ?w1.0 = ?w and resp = ?resp
      and ?w2.0 = "snd (fetch_page demo_cfg ''p1'' None ?w)" and parser = ?broken
      and e = "PyException ''ValueError''" and rest = "[''p2'']",
      THEN conjunct2, THEN conjunct2, THEN conjunct1, THEN mp, OF h3]
  have h4: "parsers ?two (key demo_site) = Some ?broken \<and> (\<forall>r. \<exists>x. ?broken r = Inl x)"
    by (simp add: parse_def config_def demo_site_def)
  note c4 = parser_error_contained[where cfg = demo_cfg and site = demo_site and w = ?two
      and parser = ?broken and page_limit = 0,
      THEN conjunct2, THEN conjunct2, THEN conjunct2, THEN conjunct1, THEN mp, OF h4]
  have p0: "pool ?two = Map.empty" by (simp add: parse_def config_def demo_world_def)
  have h6: "\<not> use_proxy demo_site" by (simp add: demo_site_def)
  note c6 = parser_error_contained[where cfg = demo_cfg and site = demo_site and w = ?two
      and k = "''S1''" and sites = "[(''S2'', demo_site\<lparr>key := ''S2''\<rparr>)]",
      THEN conjunct2, THEN conjunct2, THEN conjunct2, THEN conjunct2, THEN conjunct2, THEN mp, OF h6]
  have en: "enabled demo_site" by (simp add: demo_site_def)
  have pass: "fst (start_crawl demo_cfg ?two) = Inr ()"
    by (simp add: start_crawl_def crawl_site_def limit_pages_def config_def parse_def run_defs demo_defs)
  have sk: "sinks_of (snd (start_crawl demo_cfg ?two))
     = [Zadd ''1.2.3.4:80'' 10, Zadd ''5.6.7.8:80'' 10, Forward [''1.2.3.4:80'', ''5.6.7.8:80'']]"
    by (simp add: start_crawl_def crawl_site_def limit_pages_def config_def parse_def sinks_of_def
        run_defs demo_defs)
  have sl: "sleeps_of (snd (start_crawl demo_cfg ?two)) = [Sleep 2, Sleep 2, Sleep 2, Sleep 2]"
    by (simp add: start_crawl_def crawl_site_def limit_pages_def config_def parse_def sleeps_of_def
        run_defs demo_defs)
  from c1 r ev c3 c4 p0 c6 en pass sk sl show ?thesis by simp
qed

text \<open>
  Claim C8. For a source identifier that has no parser in the registry, \<open>parse_site\<close>
  returns at once for every response: it raises nothing and leaves the world as it
  was, so nothing is inserted into the pool and nothing is forwarded.
\<close>

theorem no_parser_no_op:
  assumes "parsers w (key site) = None"
  shows "parse_site cfg site resp w = (Inr (), w)"
  using assms by (simp add: parse_site_def)

theorem no_parser_no_op_witness:
  "parsers demo_world (key (demo_site\<lparr>key := ''S2''\<rparr>)) = None
   \<and> parse_site demo_cfg (demo_site\<lparr>key := ''S2''\<rparr>) \<lparr>text_of = ''1.2.3.4:80'', url = ''p1''\<rparr> demo_world
      = (Inr (), demo_world)"
proof -
  have h: "parsers demo_world (key (demo_site\<lparr>key := ''S2''\<rparr>)) = None"
    by (simp add: demo_world_def)
  from no_parser_no_op[OF h] h show ?thesis by simp
qed

subsection \<open>Test mode\<close>

lemma registration_frame [simp]:
  "test_model (config name res w) = test_model w" "pool (config name res w) = pool w"
  "sinks_of (config name res w) = sinks_of w"
  "test_model (parse name f w) = test_model w" "pool (parse name f w) = pool w"
  "sinks_of (parse name f w) = sinks_of w"
  by (simp_all add: config_def parse_def sinks_of_def)

text \<open>
  Claim C9. \<open>test_crawl\<close> sets \<open>test_model\<close>, and no operation of the engine resets it:
  from a world where it is set, \<open>push_to_pool\<close>, \<open>config\<close>, \<open>parse\<close>, \<open>parse_site\<close>,
  \<open>crawl_single_page\<close>, \<open>crawl_site\<close>, \<open>start_crawl\<close>, the polling loop \<open>crawl_task\<close> for
  any number of passes, and \<open>test_crawl\<close> itself all end in a world where it is set.
  While it is set, every parse only logs: across \<open>parse_site\<close>, a page visit, a source,
  a pass and the polling loop the pool is unchanged, and no \<open>Zadd\<close> and no \<open>Forward\<close>
  is added to the trace.
\<close>

theorem test_model_sticky:
  "test_model (snd (test_crawl cfg k page_limit w0))
   \<and> pool (snd (test_crawl cfg k page_limit w0)) = pool w0
   \<and> sinks_of (snd (test_crawl cfg k page_limit w0)) = sinks_of w0
   \<and> (test_model w \<longrightarrow>
        test_model (snd (push_to_pool cfg arg w))
      \<and> test_model (config name res w)
      \<and> test_model (parse name f w)
      \<and> (test_model (snd (parse_site cfg site resp w))
          \<and> pool (snd (parse_site cfg site resp w)) = pool w
          \<and> sinks_of (snd (parse_site cfg site resp w)) = sinks_of w)
      \<and> (test_model (snd (crawl_single_page cfg page site w))
          \<and> pool (snd (crawl_single_page cfg page site w)) = pool w
          \<and> sinks_of (snd (crawl_single_page cfg page site w)) = sinks_of w)
      \<and> (test_model (snd (crawl_site cfg site page_limit w))
          \<and> pool (snd (crawl_site cfg site page_limit w)) = pool w
          \<and> sinks_of (snd (crawl_site cfg site page_limit w)) = sinks_of w)
      \<and> (test_model (snd (start_crawl cfg w))
          \<and> pool (snd (start_crawl cfg w)) = pool w
          \<and> sinks_of (snd (start_crawl cfg w)) = sinks_of w)
      \<and> (test_model (snd (crawl_task n cfg w))
          \<and> pool (snd (crawl_task n cfg w)) = pool w
          \<and> sinks_of (snd (crawl_task n cfg w)) = sinks_of w))"
proof -
  have pair: "x = (fst x, snd x)" for x :: "'a \<times> world" by simp
  have t0: "test_model (snd (test_crawl cfg k page_limit w0))
      \<and> pool (snd (test_crawl cfg k page_limit w0)) = pool w0
      \<and> sinks_of (snd (test_crawl cfg k page_limit w0)) = sinks_of w0"
    by (rule test_crawl_display[OF pair])
  have on: ?thesis if t: "test_model w"
  proof -
    have "test_model (snd (push_to_pool cfg arg w))"
      using push_to_pool_frame[OF pair, of cfg arg w] t by simp
    moreover have "test_model (snd (parse_site cfg site resp w))
        \<and> pool (snd (parse_site cfg site resp w)) = pool w
        \<and> sinks_of (snd (parse_site cfg site resp w)) = sinks_of w"
      using parse_site_frame[OF pair, of cfg site resp w] parse_site_display[OF pair t, of cfg site resp] t
      by simp
    moreover have "test_model (snd (crawl_single_page cfg page site w))
        \<and> pool (snd (crawl_single_page cfg page site w)) = pool w
        \<and> sinks_of (snd (crawl_single_page cfg page site w)) = sinks_of w"
      by (rule crawl_single_page_display[OF pair t])
    moreover have "test_model (snd (crawl_site cfg site page_limit w))
        \<and> pool (snd (crawl_site cfg site page_limit w)) = pool w
        \<and> sinks_of (snd (crawl_site cfg site page_limit w)) = sinks_of w"
      unfolding crawl_site_def
      using crawl_pages_frame[OF pair, of cfg site _ w] crawl_pages_display[OF pair t, of cfg site] t
      by simp
    moreover have "test_model (snd (start_crawl cfg w))
        \<and> pool (snd (start_crawl cfg w)) = pool w
        \<and> sinks_of (snd (start_crawl cfg w)) = sinks_of w"
      unfolding start_crawl_def
      using crawl_sites_frame[OF pair, of cfg _ w] crawl_sites_display[OF pair t, of cfg] t
      by simp
    moreover have "test_model (snd (crawl_task n cfg w))
        \<and> pool (snd (crawl_task n cfg w)) = pool w
        \<and> sinks_of (snd (crawl_task n cfg w)) = sinks_of w"
      by (rule crawl_task_display[OF pair t])
    ultimately show ?thesis using t0 t by simp
  qed
  show ?thesis
  proof (cases "test_model w")
    case True
    then show ?thesis by (rule on)
  next
    case False
    with t0 show ?thesis by simp
  qed
qed


theorem test_model_sticky_witness:
  "test_model (snd (test_crawl demo_cfg ''S1'' 1 demo_world))
   \<and> events (snd (test_crawl demo_cfg ''S1'' 1 demo_world))
      = [Get ''p1'' None, Log (ShowUrl ''p1''), Log (ShowIp ''1.2.3.4:80''),
         Log (ShowIp ''5.6.7.8:80''), Sleep 2]
   \<and> test_model (snd (crawl_task 2 demo_cfg (snd (test_crawl demo_cfg ''S1'' 1 demo_world))))
   \<and> pool (snd (crawl_task 2 demo_cfg (snd (test_crawl demo_cfg ''S1'' 1 demo_world)))) = Map.empty
   \<and> sinks_of (snd (crawl_task 2 demo_cfg (snd (test_crawl demo_cfg ''S1'' 1 demo_world)))) = []
   \<and> sinks_of (snd (start_crawl demo_cfg demo_world))
      = [Zadd ''1.2.3.4:80'' 10, Zadd ''5.6.7.8:80'' 10, Forward [''1.2.3.4:80'', ''5.6.7.8:80'']]"
proof -
  let ?w1 = "snd (test_crawl demo_cfg ''S1'' 1 demo_world)"
  note sticky = test_model_sticky[where cfg = demo_cfg and k = "''S1''" and page_limit = 1
      and ?w0.0 = demo_world and w = ?w1 and n = 2]
  from sticky have t: "test_model ?w1" and p: "pool ?w1 = pool demo_world"
    and s: "sinks_of ?w1 = sinks_of demo_world"
    by simp_all
  from sticky t have
    "test_model (snd (crawl_task 2 demo_cfg ?w1))
      \<and> pool (snd (crawl_task 2 demo_cfg ?w1)) = pool ?w1
      \<and> sinks_of (snd (crawl_task 2 demo_cfg ?w1)) = sinks_of ?w1"
    by simp
  moreover have "pool demo_world = Map.empty" "sinks_of demo_world = []"
    by (simp_all add: demo_world_def sinks_of_def)
  moreover have "events ?w1
      = [Get ''p1'' None, Log (ShowUrl ''p1''), Log (ShowIp ''1.2.3.4:80''),
         Log (ShowIp ''5.6.7.8:80''), Sleep 2]"
    by (simp add: test_crawl_def crawl_site_def limit_pages_def run_defs demo_defs)
  moreover have "sinks_of (snd (start_crawl demo_cfg demo_world))
      = [Zadd ''1.2.3.4:80'' 10, Zadd ''5.6.7.8:80'' 10, Forward [''1.2.3.4:80'', ''5.6.7.8:80'']]"
    by (simp add: start_crawl_def crawl_site_def limit_pages_def sinks_of_def run_defs demo_defs)
  ultimately show ?thesis using t p s by simp
qed

subsection \<open>Failures of the sink\<close>

lemma save_failure_contained:
  assumes "parsers w (key site) = Some parser" and "parser resp = Inr result"
    and "\<not> test_model w" and "save_parse_result cfg result w = (Inl e, w1)"
  shows "parse_site cfg site resp w = (Inr (), emit (Log (ParseError e)) w1)"
  using assms by (simp add: parse_site_def parse_result_def)

text \<open>
  Claim C10. An exception raised while the parse results are saved or forwarded (by
  the score lookup, the insertion or the forwarding call, all inside
  \<open>save_parse_result\<close>) is caught by the handler of \<open>parse_site\<close> that catches parser
  errors: it is logged as a parse error and \<open>parse_site\<close> returns, so the exception is
  not propagated, and the page visit, once the page is fetched, returns normally, so
  nothing is retried. A failure in the middle of a batch can therefore leave an address
  in the pool that was never forwarded: in the run below the lookup of the second
  address fails after the first one was inserted.
\<close>

theorem sink_failure_swallowed:
  "(parsers w (key site) = Some parser \<and> parser resp = Inr result \<and> \<not> test_model w
      \<and> save_parse_result cfg result w = (Inl e, w1) \<longrightarrow>
      parse_site cfg site resp w = (Inr (), emit (Log (ParseError e)) w1))
   \<and> fst (parse_site cfg site resp w) = Inr ()
   \<and> (select_proxy cfg site page w = (Inr proxy, v1) \<and> fetch_page cfg page proxy v1 = (Inr resp, v2)
        \<longrightarrow> fst (crawl_single_page_body cfg page site w) = Inr ()
          \<and> fst (crawl_single_page cfg page site w) = (if retry_num cfg = 0 then Inl MaxRetryException else Inr ())
          \<and> snd (crawl_single_page cfg page site w)
              = (if retry_num cfg = 0 then w else snd (crawl_single_page_body cfg page site w)))
   \<and> (let w' = snd (parse_site demo_cfg demo_site \<lparr>text_of = ''1.2.3.4:80'', url = ''p1''\<rparr>
                  (demo_world\<lparr>faults := [None, None, None, Some (PyException ''ConnectionError'')]\<rparr>))
       in pool w' ''1.2.3.4:80'' = Some 10
        \<and> events w' = [Log (GetNewIp 2), Zadd ''1.2.3.4:80'' 10,
                        Log (ParseError (PyException ''ConnectionError''))])"
proof -
  have body: "fst (crawl_single_page_body cfg page site w) = Inr ()"
    if "select_proxy cfg site page w = (Inr proxy, v1)" "fetch_page cfg page proxy v1 = (Inr resp, v2)"
    using that crawl_single_page_body_cases[where cfg = cfg and site = site and page = page and w = w]
    by simp
  have once: "crawl_single_page cfg page site w =
      (if retry_num cfg = 0 then (Inl MaxRetryException, w) else crawl_single_page_body cfg page site w)"
    if "fst (crawl_single_page_body cfg page site w) = Inr ()"
    using that unfolding crawl_single_page_def
    by (cases "retry_num cfg") (simp_all add: retry_Suc del: retry.simps(2))
  have demo: "let w' = snd (parse_site demo_cfg demo_site \<lparr>text_of = ''1.2.3.4:80'', url = ''p1''\<rparr>
                  (demo_world\<lparr>faults := [None, None, None, Some (PyException ''ConnectionError'')]\<rparr>))
       in pool w' ''1.2.3.4:80'' = Some 10
        \<and> events w' = [Log (GetNewIp 2), Zadd ''1.2.3.4:80'' 10,
                        Log (ParseError (PyException ''ConnectionError''))]"
    by (simp add: run_defs demo_defs)
  show ?thesis
    using save_failure_contained[of w site parser resp result cfg e w1]
      parse_site_returns[of cfg site resp w] body once demo
    by auto
qed

theorem sink_failure_swallowed_witness:
  "save_parse_result demo_cfg [SiteResponseData ''1.2.3.4:80'', NotSiteResponseData, SiteResponseData ''5.6.7.8:80'']
      (demo_world\<lparr>faults := [None, None, None, Some (PyException ''ConnectionError'')]\<rparr>)
    = (Inl (PyException ''ConnectionError''),
       snd (save_parse_result demo_cfg [SiteResponseData ''1.2.3.4:80'', NotSiteResponseData, SiteResponseData ''5.6.7.8:80'']
         (demo_world\<lparr>faults := [None, None, None, Some (PyException ''ConnectionError'')]\<rparr>)))
   \<and> parse_site demo_cfg demo_site \<lparr>text_of = ''1.2.3.4:80'', url = ''p1''\<rparr>
        (demo_world\<lparr>faults := [None, None, None, Some (PyException ''ConnectionError'')]\<rparr>)
    = (Inr (), emit (Log (ParseError (PyException ''ConnectionError'')))
        (snd (save_parse_result demo_cfg [SiteResponseData ''1.2.3.4:80'', NotSiteResponseData, SiteResponseData ''5.6.7.8:80'']
         (demo_world\<lparr>faults := [None, None, None, Some (PyException ''ConnectionError'')]\<rparr>))))
   \<and> fst (crawl_single_page demo_cfg ''p1'' demo_site
        (demo_world\<lparr>faults := [None, None, None, None, None, Some (PyException ''ConnectionError'')]\<rparr>))
    = Inr ()
   \<and> sinks_of (snd (crawl_single_page demo_cfg ''p1'' demo_site
        (demo_world\<lparr>faults := [None, None, None, None, None, Some (PyException ''ConnectionError'')]\<rparr>)))
    = [Zadd ''1.2.3.4:80'' 10]"
proof -
  let ?w = "demo_world\<lparr>faults := [None, None, None, Some (PyException ''ConnectionError'')]\<rparr>"
  let ?result = "[SiteResponseData ''1.2.3.4:80'', NotSiteResponseData, SiteResponseData ''5.6.7.8:80'']"
  let ?resp = "\<lparr>text_of = ''1.2.3.4:80'', url = ''p1''\<rparr>"
  have "fst (save_parse_result demo_cfg ?result ?w) = Inl (PyException ''ConnectionError'')"
    by (simp add: run_defs demo_defs)
  then have sv: "save_parse_result demo_cfg ?result ?w
      = (Inl (PyException ''ConnectionError''), snd (save_parse_result demo_cfg ?result ?w))"
    by (simp add: prod_eq_iff)
  have h: "parsers ?w (key demo_site) = Some demo_parser \<and> demo_parser ?resp = Inr ?result
      \<and> \<not> test_model ?w"
    by (simp add: demo_defs)
  have r: "fst (crawl_single_page demo_cfg ''p1'' demo_site
        (demo_world\<lparr>faults := [None, None, None, None, None, Some (PyException ''ConnectionError'')]\<rparr>))
    = Inr ()"
    by (simp add: run_defs demo_defs)
  have s: "sinks_of (snd (crawl_single_page demo_cfg ''p1'' demo_site
        (demo_world\<lparr>faults := [None, None, None, None, None, Some (PyException ''ConnectionError'')]\<rparr>)))
    = [Zadd ''1.2.3.4:80'' 10]"
    by (simp add: run_defs demo_defs sinks_of_def)
  from sink_failure_swallowed[where w = ?w and site = demo_site and parser = demo_parser
      and resp = ?resp and result = ?result and cfg = demo_cfg
      and e = "PyException ''ConnectionError''" and ?w1.0 = "snd (save_parse_result demo_cfg ?result ?w)",
      THEN conjunct1, THEN mp] h sv
  have "parse_site demo_cfg demo_site ?resp ?w
    = (Inr (), emit (Log (ParseError (PyException ''ConnectionError'')))
        (snd (save_parse_result demo_cfg ?result ?w)))"
    by blast
  with sv r s show ?thesis by blast
qed

end
